(* ===== verification/Prelude.thy ===== *)
theory Prelude
  imports Complex_Main "HOL-Library.Multiset"
begin

text \<open>
  Shared vocabulary of the development: the types that name the model's values, the
  collections of facts the component theories feed, and generic lemmas on lists and
  association lists that several components use (bucket counters of histograms, the
  insertion-ordered dictionary of labelled metric children).
\<close>

named_theorems state_simps \<open>record frame and field facts of the application state\<close>
named_theorems hist_simps \<open>facts on histogram operations used by the metric proofs\<close>

type_synonym seconds = real
type_synonym py_str = string

text \<open>
  The exceptions the modelled code raises, as values: \<^verbatim>\<open>ValueError\<close> with its
  message (from \<^verbatim>\<open>int()\<close> and from \<^verbatim>\<open>int.__repr__\<close>), and Werkzeug's routing
  exceptions \<^verbatim>\<open>NotFound\<close> (404) and \<^verbatim>\<open>MethodNotAllowed\<close> (405).
\<close>

datatype py_exc = ValueError py_str | NotFound | MethodNotAllowed

subsection \<open>Incrementing one slot of a list of counters\<close>

text \<open>
  \<open>inc_at i xs\<close> is \<^verbatim>\<open>xs[i] += 1\<close> on a list of natural counters; it is only
  applied at indices in range.
\<close>

definition inc_at :: "nat \<Rightarrow> nat list \<Rightarrow> nat list" where
  "inc_at i xs = xs[i := Suc (xs ! i)]"

subsection \<open>Insertion-ordered dictionaries\<close>

text \<open>
  A Python \<^verbatim>\<open>dict\<close> keeps its keys in insertion order; assigning to an existing
  key keeps its position, a new key goes to the end. \<open>assoc_upd\<close> is that
  assignment on an association list.
\<close>

fun assoc_upd :: "'k \<Rightarrow> 'v \<Rightarrow> ('k \<times> 'v) list \<Rightarrow> ('k \<times> 'v) list" where
  "assoc_upd k v [] = [(k, v)]"
| "assoc_upd k v ((k', v') # ps) =
     (if k = k' then (k, v) # ps else (k', v') # assoc_upd k v ps)"

subsection \<open>Facts on \<open>inc_at\<close>\<close>

lemma length_inc_at [simp]: "length (inc_at i xs) = length xs"
  by (simp add: inc_at_def)

lemma nth_inc_at:
  "j < length xs \<Longrightarrow> inc_at i xs ! j = (if i = j then Suc (xs ! j) else xs ! j)"
  by (simp add: inc_at_def nth_list_update)

lemma sum_list_inc_at [simp]:
  "i < length xs \<Longrightarrow> sum_list (inc_at i xs) = Suc (sum_list xs)"
proof (induction xs arbitrary: i)
  case Nil
  then show ?case by simp
next
  case (Cons x xs)
  then show ?case by (cases i) (auto simp: inc_at_def)
qed

lemma inc_at_Cons [simp]:
  "inc_at 0 (x # xs) = Suc x # xs"
  "inc_at (Suc i) (x # xs) = x # inc_at i xs"
  by (simp_all add: inc_at_def)

lemma take_inc_at:
  "sum_list (take k (inc_at i xs)) = sum_list (take k xs) + (if i < k \<and> i < length xs then 1 else 0)"
proof (induction xs arbitrary: i k)
  case Nil
  then show ?case by (simp add: inc_at_def)
next
  case (Cons x xs)
  show ?case
  proof (cases k)
    case 0
    then show ?thesis by simp
  next
    case (Suc k')
    then show ?thesis
      using Cons.IH by (cases i) simp_all
  qed
qed

subsection \<open>Facts on \<open>assoc_upd\<close>\<close>

lemma map_of_assoc_upd [simp]: "map_of (assoc_upd k v ps) = (map_of ps)(k \<mapsto> v)"
  by (induction ps) (auto simp: fun_eq_iff)

lemma keys_assoc_upd:
  "map fst (assoc_upd k v ps) = (if k \<in> set (map fst ps) then map fst ps else map fst ps @ [k])"
proof (induction ps)
  case Nil
  then show ?case by simp
next
  case (Cons p ps)
  then show ?case by (cases p) auto
qed

lemma distinct_assoc_upd [simp]:
  "distinct (map fst ps) \<Longrightarrow> distinct (map fst (assoc_upd k v ps))"
  by (simp add: keys_assoc_upd)

lemma set_assoc_upd:
  "distinct (map fst ps) \<Longrightarrow> set (assoc_upd k v ps) = {p \<in> set ps. fst p \<noteq> k} \<union> {(k, v)}"
proof (induction ps)
  case Nil
  then show ?case by simp
next
  case (Cons p ps)
  then show ?case by (cases p) force
qed

lemma length_assoc_upd:
  "length (assoc_upd k v ps) = (if k \<in> set (map fst ps) then length ps else Suc (length ps))"
  using keys_assoc_upd [of k v ps] by (metis length_append_singleton length_map)

text \<open>The sum of a quantity over the values of a dictionary with distinct keys.\<close>

lemma sum_list_assoc_upd:
  "distinct (map fst ps) \<Longrightarrow>
   (\<Sum>p\<leftarrow>assoc_upd k v ps. f (snd p)) =
   (\<Sum>p\<leftarrow>ps. f (snd p)) - (case map_of ps k of Some w \<Rightarrow> f w | None \<Rightarrow> 0) + f v"
  for f :: "'v \<Rightarrow> nat"
proof (induction ps)
  case Nil
  then show ?case by simp
next
  case (Cons p ps)
  obtain k' w where p: "p = (k', w)" by fastforce
  show ?case
  proof (cases "k = k'")
    case True
    with Cons.prems p have "map_of ps k = None"
      by (simp add: map_of_eq_None_iff)
    with True p show ?thesis by simp
  next
    case False
    have le: "(case map_of ps k of Some w \<Rightarrow> f w | None \<Rightarrow> 0) \<le> (\<Sum>p\<leftarrow>ps. f (snd p))"
    proof (cases "map_of ps k")
      case (Some w')
      then have "(k, w') \<in> set ps" by (rule map_of_SomeD)
      then have "f w' \<le> (\<Sum>p\<leftarrow>ps. f (snd p))"
        using member_le_sum_list [of "f w'" "map (\<lambda>p. f (snd p)) ps"] by force
      with Some show ?thesis by simp
    qed simp
    from Cons False p le show ?thesis by simp
  qed
qed

end
