(* ===== verification/PyInt.thy ===== *)
theory PyInt
  imports Prelude
begin

text \<open>
  The Python built-ins the handlers rely on for numbers and strings, as CPython 3.11
  implements them: \<^verbatim>\<open>int(s)\<close> for a query-string argument \<open>s\<close> (base 10), the decimal
  rendering \<^verbatim>\<open>int.__repr__\<close> that \<^verbatim>\<open>jsonify\<close> applies to every integer, with the
  4300-digit limit of both directions, and \<^verbatim>\<open>repr\<close> of a string, which the
  \<^verbatim>\<open>ValueError\<close> message of \<^verbatim>\<open>int()\<close> embeds. Python strings are sequences of code
  points; the model's \<open>char\<close> is one byte, so strings are read as Latin-1 (code
  points 0 to 255), where every rule below is exact.
\<close>

subsection \<open>Character classes\<close>

text \<open>
  \<^verbatim>\<open>int()\<close> first maps every non-ASCII white space character to \<^verbatim>\<open>' '\<close>
  (\<^verbatim>\<open>_PyUnicode_TransformDecimalAndSpaceToASCII\<close>; in Latin-1 these are U+0085 and
  U+00A0) and then skips \<^verbatim>\<open>Py_ISSPACE\<close> characters (tab, LF, VT, FF, CR, space).
  ASCII 0x1C to 0x1F are white space for \<^verbatim>\<open>str.isspace\<close> but are kept as they are by
  the transformation and are not \<^verbatim>\<open>Py_ISSPACE\<close>.
\<close>

definition py_int_space :: "char \<Rightarrow> bool" where
  "py_int_space c \<longleftrightarrow> (of_char c :: nat) \<in> {9, 10, 11, 12, 13, 32, 133, 160}"

definition py_decimal :: "char \<Rightarrow> bool" where
  "py_decimal c \<longleftrightarrow> 48 \<le> (of_char c :: nat) \<and> (of_char c :: nat) \<le> 57"

definition digit_value :: "char \<Rightarrow> nat" where
  "digit_value c = of_char c - 48"

definition digit_char :: "nat \<Rightarrow> char" where
  "digit_char d = char_of (48 + d)"

subsection \<open>Decimal rendering of integers\<close>

fun nat_digits :: "nat \<Rightarrow> nat list" where
  "nat_digits n = (if n < 10 then [n] else nat_digits (n div 10) @ [n mod 10])"

declare nat_digits.simps [simp del]

definition digits_to_nat :: "nat list \<Rightarrow> nat" where
  "digits_to_nat ds = foldl (\<lambda>acc d. 10 * acc + d) 0 ds"

text \<open>\<^verbatim>\<open>str(i)\<close> without the size limit: sign, then the decimal digits.\<close>

definition py_str_int :: "int \<Rightarrow> py_str" where
  "py_str_int i = (if i < 0 then ''-'' else []) @ map digit_char (nat_digits (nat \<bar>i\<bar>))"

definition ndigits :: "int \<Rightarrow> nat" where
  "ndigits i = length (nat_digits (nat \<bar>i\<bar>))"

text \<open>\<^verbatim>\<open>sys.int_info.default_max_str_digits\<close> and the size below which no check is made.\<close>

definition int_max_str_digits :: nat where
  "int_max_str_digits = 4300"

definition max_str_digits_threshold :: nat where
  "max_str_digits_threshold = 640"

definition limit_to_str :: py_exc where
  "limit_to_str = ValueError (''Exceeds the limit ('' @ py_str_int (int int_max_str_digits)
     @ '' digits) for integer string conversion; use sys.set_int_max_str_digits() to increase the limit'')"

text \<open>
  \<^verbatim>\<open>long_to_decimal_string\<close>: the conversion fails when the number has more decimal
  digits (sign excluded) than the limit. CPython's early check on the number of internal
  30-bit digits fires only for numbers far above the limit, so it adds no case.
\<close>

definition int_repr :: "int \<Rightarrow> py_exc + py_str" where
  "int_repr i =
     (if max_str_digits_threshold < ndigits i \<and> int_max_str_digits < ndigits i
      then Inl limit_to_str else Inr (py_str_int i))"

subsection \<open>\<^verbatim>\<open>repr\<close> of a string\<close>

text \<open>
  \<^verbatim>\<open>unicode_repr\<close>: double quotes when the text has a single quote and no double
  quote; the quote in use and the backslash are escaped; tab, LF and CR by letter; other
  control characters, DEL and the non-printable Latin-1 characters (U+0080 to U+00A0 and
  the soft hyphen U+00AD) as \<^verbatim>\<open>\xhh\<close> with lower-case hex digits.
\<close>

definition hex_digit :: "nat \<Rightarrow> char" where
  "hex_digit n = ''0123456789abcdef'' ! n"

definition repr_char :: "char \<Rightarrow> char \<Rightarrow> py_str" where
  "repr_char q c =
     (let n = (of_char c :: nat); bs = CHR 0x5C in
      if c = q \<or> c = bs then [bs, c]
      else if n = 9 then [bs, CHR ''t'']
      else if n = 10 then [bs, CHR ''n'']
      else if n = 13 then [bs, CHR ''r'']
      else if n < 32 \<or> n = 127 \<or> (128 \<le> n \<and> n \<le> 160) \<or> n = 173
      then [bs, CHR ''x'', hex_digit (n div 16), hex_digit (n mod 16)]
      else [c])"

definition py_repr :: "py_str \<Rightarrow> py_str" where
  "py_repr s =
     (let q = (if CHR 0x27 \<in> set s \<and> CHR 0x22 \<notin> set s then CHR 0x22 else CHR 0x27)
      in q # concat (map (repr_char q) s) @ [q])"

subsection \<open>\<^verbatim>\<open>int(s)\<close> in base 10\<close>

text \<open>
  \<^verbatim>\<open>PyLong_FromString\<close>: skip white space, take one sign, refuse a leading
  underscore, then scan the run of digits in which single underscores may separate
  digits (\<^verbatim>\<open>prev\<close> is the previous character, NUL at the start); a doubled or a
  trailing underscore is an error. \<open>scan_digits\<close> returns the digits and the rest of
  the text, or \<open>None\<close> for an underscore error.
\<close>

fun scan_digits :: "char \<Rightarrow> py_str \<Rightarrow> (nat list \<times> py_str) option" where
  "scan_digits prev [] = (if prev = CHR ''_'' then None else Some ([], []))"
| "scan_digits prev (c # cs) =
     (if py_decimal c then map_option (\<lambda>(ds, r). (digit_value c # ds, r)) (scan_digits c cs)
      else if c = CHR ''_'' then (if prev = CHR ''_'' then None else scan_digits c cs)
      else if prev = CHR ''_'' then None else Some ([], c # cs))"

definition take_sign :: "py_str \<Rightarrow> int \<times> py_str" where
  "take_sign s =
     (case s of
        [] \<Rightarrow> (1, [])
      | c # r \<Rightarrow> if c = CHR ''+'' then (1, r) else if c = CHR ''-'' then (-1, r) else (1, s))"

text \<open>
  \<^verbatim>\<open>PyLong_FromUnicodeObject\<close> reports every failure of the scan as
  \<^verbatim>\<open>"invalid literal for int() with base 10: %.200R"\<close> of the original text (its
  \<^verbatim>\<open>repr\<close> cut to 200 characters); only the digit-limit error keeps its own message.
\<close>

definition invalid_literal :: "py_str \<Rightarrow> py_exc" where
  "invalid_literal u = ValueError (''invalid literal for int() with base 10: '' @ take 200 (py_repr u))"

definition limit_to_int :: "nat \<Rightarrow> py_exc" where
  "limit_to_int d = ValueError (''Exceeds the limit ('' @ py_str_int (int int_max_str_digits)
     @ '' digits) for integer string conversion: value has '' @ py_str_int (int d)
     @ '' digits; use sys.set_int_max_str_digits() to increase the limit'')"

definition py_int_of_str :: "py_str \<Rightarrow> py_exc + int" where
  "py_int_of_str u =
     (let (sign, s) = take_sign (dropWhile py_int_space u) in
      if (case s of c # _ \<Rightarrow> c = CHR ''_'' | [] \<Rightarrow> False) then Inl (invalid_literal u)
      else
        (case scan_digits (CHR 0x00) s of
           None \<Rightarrow> Inl (invalid_literal u)
         | Some (ds, rest) \<Rightarrow>
             if max_str_digits_threshold < length ds \<and> int_max_str_digits < length ds
             then Inl (limit_to_int (length ds))
             else if ds = [] then Inl (invalid_literal u)
             else if dropWhile py_int_space rest \<noteq> [] then Inl (invalid_literal u)
             else Inr (sign * int (digits_to_nat ds))))"

subsection \<open>The grammar of \<^verbatim>\<open>int()\<close>, as a reference\<close>

text \<open>
  The language that \<^verbatim>\<open>int(s)\<close> accepts in base 10, as the Python documentation states
  it, independently of the scanner above: optional white space, an optional sign, a
  \<^verbatim>\<open>digitpart ::= digit (["_"] digit)*\<close>, optional white space; the value is that of
  the digits, and at most 4300 of them are allowed.
\<close>

fun no_double_us :: "py_str \<Rightarrow> bool" where
  "no_double_us (a # b # cs) = (\<not> (a = CHR ''_'' \<and> b = CHR ''_'') \<and> no_double_us (b # cs))"
| "no_double_us _ = True"

definition py_digitpart :: "py_str \<Rightarrow> bool" where
  "py_digitpart b \<longleftrightarrow>
     b \<noteq> [] \<and> py_decimal (hd b) \<and> py_decimal (last b) \<and>
     list_all (\<lambda>c. py_decimal c \<or> c = CHR ''_'') b \<and> no_double_us b"

definition py_strip :: "py_str \<Rightarrow> py_str" where
  "py_strip u = rev (dropWhile py_int_space (rev (dropWhile py_int_space u)))"

definition py_int_ref :: "py_str \<Rightarrow> int option" where
  "py_int_ref u =
     (let t = py_strip u;
          (sg, b) = (case t of
                       c # b \<Rightarrow> if c = CHR ''-'' then (-1, b) else if c = CHR ''+'' then (1, b) else (1, t)
                     | [] \<Rightarrow> (1, []));
          ds = map digit_value (filter py_decimal b)
      in if py_digitpart b \<and> length ds \<le> int_max_str_digits
         then Some (sg * int (digits_to_nat ds)) else None)"

subsection \<open>Digits\<close>

lemma of_char_digit_char [simp]: "d < 10 \<Longrightarrow> (of_char (digit_char d) :: nat) = 48 + d"
  by (simp add: digit_char_def)

lemma digit_char_facts [simp]:
  assumes "d < 10"
  shows "py_decimal (digit_char d)" "digit_value (digit_char d) = d"
    "\<not> py_int_space (digit_char d)" "digit_char d \<noteq> CHR ''_''"
    "digit_char d \<noteq> CHR ''-''" "digit_char d \<noteq> CHR ''+''"
proof -
  have o: "(of_char (digit_char d) :: nat) = 48 + d" using assms by simp
  show "py_decimal (digit_char d)" "digit_value (digit_char d) = d" "\<not> py_int_space (digit_char d)"
    using assms o by (auto simp: py_decimal_def digit_value_def py_int_space_def)
  show "digit_char d \<noteq> CHR ''_''" "digit_char d \<noteq> CHR ''-''" "digit_char d \<noteq> CHR ''+''"
    using assms o by (auto dest: arg_cong [where f = "of_char :: char \<Rightarrow> nat"])
qed

lemma nat_digits_ne [simp]: "nat_digits n \<noteq> []"
  by (subst nat_digits.simps) simp

lemma nat_digits_lt: "d \<in> set (nat_digits n) \<Longrightarrow> d < 10"
proof (induction n rule: nat_digits.induct)
  case (1 n)
  then show ?case by (subst (asm) nat_digits.simps) (auto split: if_splits)
qed

lemma digits_to_nat_snoc [simp]: "digits_to_nat (ds @ [d]) = 10 * digits_to_nat ds + d"
  by (simp add: digits_to_nat_def)

lemma digits_to_nat_nat_digits [simp]: "digits_to_nat (nat_digits n) = n"
proof (induction n rule: nat_digits.induct)
  case (1 n)
  then show ?case by (subst nat_digits.simps) (simp add: digits_to_nat_def)
qed

lemma digits_to_nat_bound: "\<forall>d\<in>set ds. d < 10 \<Longrightarrow> digits_to_nat ds < 10 ^ length ds"
proof (induction ds rule: rev_induct)
  case Nil
  then show ?case by (simp add: digits_to_nat_def)
next
  case (snoc d ds)
  then have "digits_to_nat ds + 1 \<le> 10 ^ length ds" and "d < 10" by auto
  then have "10 * digits_to_nat ds + d < 10 * 10 ^ length ds" by linarith
  then show ?case by simp
qed

lemma length_nat_digits_le: "n < 10 ^ k \<Longrightarrow> 0 < k \<Longrightarrow> length (nat_digits n) \<le> k"
proof (induction n arbitrary: k rule: nat_digits.induct)
  case (1 n)
  show ?case
  proof (cases "n < 10")
    case True
    with "1.prems" show ?thesis by (subst nat_digits.simps) simp
  next
    case False
    with "1.prems" obtain k' where k: "k = Suc k'" and "0 < k'"
      by (cases k; cases "k - 1") auto
    with "1.prems" have "n div 10 < 10 ^ k'" by (simp add: div_less_iff_less_mult)
    with False "1.IH" k \<open>0 < k'\<close> show ?thesis by (subst nat_digits.simps) simp
  qed
qed

lemma length_nat_digits_gt: "10 ^ k \<le> n \<Longrightarrow> k < length (nat_digits n)"
proof (induction n arbitrary: k rule: nat_digits.induct)
  case (1 n)
  show ?case
  proof (cases k)
    case 0
    then show ?thesis by simp
  next
    case (Suc k')
    with "1.prems" have big: "\<not> n < 10" and "10 ^ k' \<le> n div 10"
      using order_less_le_trans [of n 10 "10 ^ Suc k'"]
      by (auto simp: less_eq_div_iff_mult_less_eq mult.commute intro: order_trans)
    with "1.IH" Suc show ?thesis by (subst nat_digits.simps) simp
  qed
qed

subsection \<open>Round trip with \<^verbatim>\<open>str\<close>\<close>

lemma scan_digits_append:
  assumes "\<forall>d\<in>set ds. d < 10" and "prev \<noteq> CHR ''_''"
    and "case rest of [] \<Rightarrow> True | c # _ \<Rightarrow> \<not> py_decimal c \<and> c \<noteq> CHR ''_''"
  shows "scan_digits prev (map digit_char ds @ rest) = Some (ds, rest)"
  using assms
proof (induction ds arbitrary: prev)
  case Nil
  then show ?case by (cases rest) auto
next
  case (Cons d ds)
  then show ?case by simp
qed

lemma py_str_int_shape:
  "\<exists>sg. py_str_int i = sg @ map digit_char (nat_digits (nat \<bar>i\<bar>)) \<and>
        take_sign (py_str_int i @ r) = (if i < 0 then -1 else 1, map digit_char (nat_digits (nat \<bar>i\<bar>)) @ r) \<and>
        (\<forall>c\<in>set sg. \<not> py_int_space c)"
proof -
  obtain d ds where dd: "nat_digits (nat \<bar>i\<bar>) = d # ds"
    by (cases "nat_digits (nat \<bar>i\<bar>)") auto
  then have "d < 10" using nat_digits_lt [of d "nat \<bar>i\<bar>"] by simp
  then show ?thesis
    by (auto simp: py_str_int_def take_sign_def dd py_int_space_def)
qed

lemma py_str_int_first:
  "dropWhile py_int_space (py_str_int i @ r) = py_str_int i @ r"
proof -
  obtain d ds where dd: "nat_digits (nat \<bar>i\<bar>) = d # ds"
    by (cases "nat_digits (nat \<bar>i\<bar>)") auto
  then have "d < 10" using nat_digits_lt [of d "nat \<bar>i\<bar>"] by simp
  then show ?thesis by (auto simp: py_str_int_def dd py_int_space_def)
qed

text \<open>
  The decimal text of an integer within the digit limit, with any white space that
  \<^verbatim>\<open>int()\<close> skips around it, reads back as that integer.
\<close>

lemma py_int_of_str_padded:
  assumes ws: "\<forall>c\<in>set ws. py_int_space c" and ws': "\<forall>c\<in>set ws'. py_int_space c"
    and lim: "ndigits i \<le> int_max_str_digits"
  shows "py_int_of_str (ws @ py_str_int i @ ws') = Inr i"
proof -
  let ?ds = "nat_digits (nat \<bar>i\<bar>)"
  have lt: "\<forall>d\<in>set ?ds. d < 10" using nat_digits_lt by blast
  have drop: "dropWhile py_int_space (ws @ py_str_int i @ ws') = py_str_int i @ ws'"
    using ws by (simp add: dropWhile_append2 py_str_int_first)
  have rest: "case ws' of [] \<Rightarrow> True | c # _ \<Rightarrow> \<not> py_decimal c \<and> c \<noteq> CHR ''_''"
    using ws' by (cases ws') (auto simp: py_int_space_def py_decimal_def)
  have scan: "scan_digits (CHR 0x00) (map digit_char ?ds @ ws') = Some (?ds, ws')"
    using scan_digits_append [OF lt _ rest] by simp
  obtain d ds where dd: "?ds = d # ds" by (cases ?ds) auto
  have d: "d < 10" using lt dd by simp
  have sign: "take_sign (py_str_int i @ ws') = (if i < 0 then -1 else 1, map digit_char ?ds @ ws')"
    using py_str_int_shape [of i ws'] by blast
  have val: "digits_to_nat (d # ds) = nat \<bar>i\<bar>"
    using digits_to_nat_nat_digits [of "nat \<bar>i\<bar>"] dd by simp
  have "dropWhile py_int_space ws' = []" using ws' by simp
  with drop sign scan lim d dd val show ?thesis
    by (simp add: py_int_of_str_def ndigits_def)
qed

lemma py_int_of_str_str_int: "ndigits i \<le> int_max_str_digits \<Longrightarrow> py_int_of_str (py_str_int i) = Inr i"
  using py_int_of_str_padded [of "[]" "[]" i] by simp

lemma ndigits_pow10: "ndigits (10 ^ k) = Suc k"
proof -
  have n: "nat \<bar>(10::int) ^ k\<bar> = 10 ^ k" by (simp add: nat_power_eq)
  have "k < length (nat_digits (10 ^ k))" by (rule length_nat_digits_gt) simp
  moreover have "length (nat_digits (10 ^ k)) \<le> Suc k" by (rule length_nat_digits_le) simp_all
  ultimately show ?thesis unfolding ndigits_def n by linarith
qed

lemma ten_less_pow_ten: "2 \<le> k \<Longrightarrow> (10::int) < 10 ^ k"
  using power_strict_increasing [of 1 k "10::int"] by simp

lemma int_repr_ok: "ndigits i \<le> int_max_str_digits \<Longrightarrow> int_repr i = Inr (py_str_int i)"
  by (simp add: int_repr_def)

lemma int_repr_limit: "int_max_str_digits < ndigits i \<Longrightarrow> int_repr i = Inl limit_to_str"
  by (simp add: int_repr_def int_max_str_digits_def max_str_digits_threshold_def)

text \<open>
  C7. Round trip: whatever text \<^verbatim>\<open>int.__repr__\<close> produces for an integer (it refuses
  only numbers over the digit limit), \<^verbatim>\<open>int()\<close> reads it back as that integer.
\<close>

theorem int_repr_roundtrip: "int_repr i = Inr t \<Longrightarrow> py_int_of_str t = Inr i"
  by (auto simp: int_repr_def max_str_digits_threshold_def int_max_str_digits_def
      intro: py_int_of_str_str_int [unfolded int_max_str_digits_def] split: if_splits)

text \<open>
  C8. The digit limit: a run of more than 4300 decimal digits is refused with the
  limit's \<^verbatim>\<open>ValueError\<close>, whatever its value (leading zeros count).
\<close>

theorem py_int_of_str_digit_limit:
  assumes "\<forall>d\<in>set ds. d < 10" and "int_max_str_digits < length ds"
  shows "py_int_of_str (map digit_char ds) = Inl (limit_to_int (length ds))"
proof -
  obtain d ds' where dd: "ds = d # ds'"
    using assms(2) by (cases ds) (auto simp: int_max_str_digits_def)
  have d: "d < 10" using assms(1) dd by simp
  have scan: "scan_digits (CHR 0x00) (map digit_char ds) = Some (ds, [])"
    using scan_digits_append [OF assms(1), of "CHR 0x00" "[]"] by simp
  from d dd have "dropWhile py_int_space (map digit_char ds) = map digit_char ds"
    and "take_sign (map digit_char ds) = (1, map digit_char ds)"
    by (auto simp: take_sign_def)
  with scan assms(2) d dd show ?thesis
    by (simp add: py_int_of_str_def max_str_digits_threshold_def int_max_str_digits_def)
qed


subsection \<open>What \<^verbatim>\<open>int()\<close> accepts\<close>

lemma scan_digits_Some:
  "scan_digits prev s = Some (ds, r) \<Longrightarrow>
   \<exists>p. s = p @ r \<and> (\<forall>c\<in>set p. py_decimal c \<or> c = CHR ''_'') \<and>
       ds = map digit_value (filter py_decimal p)"
proof (induction prev s arbitrary: ds rule: scan_digits.induct)
  case (1 prev)
  then show ?case by (simp split: if_splits)
next
  case (2 prev c cs)
  show ?case
  proof (cases "py_decimal c")
    case True
    with "2.prems" obtain ds' where ds: "ds = digit_value c # ds'"
      and sc: "scan_digits c cs = Some (ds', r)" by auto
    from "2.IH"(1) [OF True sc] obtain p where "cs = p @ r"
      and "\<forall>c\<in>set p. py_decimal c \<or> c = CHR ''_''" and "ds' = map digit_value (filter py_decimal p)"
      by blast
    with True ds show ?thesis by (intro exI [of _ "c # p"]) simp
  next
    case nd: False
    show ?thesis
    proof (cases "c = CHR ''_''")
      case True
      with nd "2.prems" have sc: "scan_digits c cs = Some (ds, r)" by (simp split: if_splits)
      from "2.IH"(2) [OF nd True _ sc] "2.prems" nd True obtain p where "cs = p @ r"
        and "\<forall>c\<in>set p. py_decimal c \<or> c = CHR ''_''" and "ds = map digit_value (filter py_decimal p)"
        by (auto split: if_splits)
      with True nd show ?thesis by (intro exI [of _ "c # p"]) simp
    next
      case False
      with nd "2.prems" show ?thesis by (simp split: if_splits)
    qed
  qed
qed

lemma take_sign_cases:
  "take_sign s1 = (sg, s) \<Longrightarrow> s1 = s \<or> (\<exists>c. s1 = c # s \<and> (c = CHR ''+'' \<or> c = CHR ''-''))"
  by (auto simp: take_sign_def split: list.splits if_splits)

lemma py_int_of_str_Inr_parts:
  assumes "py_int_of_str u = Inr i"
  obtains sg s p rest ds where "take_sign (dropWhile py_int_space u) = (sg, s)"
    and "s = p @ rest" and "\<forall>c\<in>set p. py_decimal c \<or> c = CHR ''_''"
    and "ds = map digit_value (filter py_decimal p)" and "ds \<noteq> []"
    and "length ds \<le> int_max_str_digits" and "\<forall>c\<in>set rest. py_int_space c"
    and "i = sg * int (digits_to_nat ds)"
proof -
  obtain sg s where ts: "take_sign (dropWhile py_int_space u) = (sg, s)" by fastforce
  with assms obtain ds rest where sc: "scan_digits (CHR 0x00) s = Some (ds, rest)"
    by (auto simp: py_int_of_str_def split: option.splits if_splits)
  from assms ts sc have ne: "ds \<noteq> []" and lim: "length ds \<le> int_max_str_digits"
    and sp: "dropWhile py_int_space rest = []" and val: "i = sg * int (digits_to_nat ds)"
    by (auto simp: py_int_of_str_def max_str_digits_threshold_def int_max_str_digits_def
        split: if_splits)
  from scan_digits_Some [OF sc] obtain p where "s = p @ rest"
    and "\<forall>c\<in>set p. py_decimal c \<or> c = CHR ''_''" and "ds = map digit_value (filter py_decimal p)"
    by blast
  moreover from sp have "\<forall>c\<in>set rest. py_int_space c" by (simp add: dropWhile_eq_Nil_conv)
  ultimately show ?thesis using that ts ne lim val by blast
qed

text \<open>
  C9. Every text that \<^verbatim>\<open>int()\<close> accepts consists of white space, signs, decimal
  digits and underscores only, and has a digit: \<^verbatim>\<open>"1.5"\<close>, \<^verbatim>\<open>"1e3"\<close>,
  \<^verbatim>\<open>"0x10"\<close> and the empty text all raise.
\<close>

theorem py_int_of_str_charset:
  assumes "py_int_of_str u = Inr i"
  shows "(\<forall>c\<in>set u. py_int_space c \<or> py_decimal c \<or> c \<in> {CHR ''+'', CHR ''-'', CHR ''_''}) \<and>
         (\<exists>c\<in>set u. py_decimal c)"
proof -
  from assms obtain sg s p rest ds where ts: "take_sign (dropWhile py_int_space u) = (sg, s)"
    and s: "s = p @ rest" and p: "\<forall>c\<in>set p. py_decimal c \<or> c = CHR ''_''"
    and ds: "ds = map digit_value (filter py_decimal p)" and ne: "ds \<noteq> []"
    and rest: "\<forall>c\<in>set rest. py_int_space c"
    by (rule py_int_of_str_Inr_parts)
  have u: "u = takeWhile py_int_space u @ dropWhile py_int_space u" by simp
  have tw: "\<forall>c\<in>set (takeWhile py_int_space u). py_int_space c"
    by (auto dest: set_takeWhileD)
  from take_sign_cases [OF ts] have
    "set (dropWhile py_int_space u) \<subseteq> set s \<union> {CHR ''+'', CHR ''-''}" by auto
  moreover have "set u = set (takeWhile py_int_space u) \<union> set (dropWhile py_int_space u)"
    by (metis set_append takeWhile_dropWhile_id)
  ultimately have "\<forall>c\<in>set u. py_int_space c \<or> py_decimal c \<or> c \<in> {CHR ''+'', CHR ''-'', CHR ''_''}"
    using s p rest tw by auto
  moreover from ds ne have "filter py_decimal p \<noteq> []" by auto
  then obtain c where "c \<in> set p" "py_decimal c" by (metis filter_False)
  with s take_sign_cases [OF ts] have "\<exists>c\<in>set u. py_decimal c"
    by (metis Un_iff list.set_intros(2) set_append set_dropWhileD)
  ultimately show ?thesis by blast
qed

text \<open>
  C10. A value that \<^verbatim>\<open>int()\<close> returns always has at most 4300 decimal digits, so
  rendering it again (\<^verbatim>\<open>int.__repr__\<close>) cannot hit the limit.
\<close>

theorem py_int_of_str_within_limit:
  assumes "py_int_of_str u = Inr i"
  shows "ndigits i \<le> int_max_str_digits"
proof -
  from assms obtain sg s p rest ds where ts: "take_sign (dropWhile py_int_space u) = (sg, s)"
    and "s = p @ rest" and ds: "ds = map digit_value (filter py_decimal p)" and ne: "ds \<noteq> []"
    and lim: "length ds \<le> int_max_str_digits" and val: "i = sg * int (digits_to_nat ds)"
    by (rule py_int_of_str_Inr_parts)
  have lt: "\<forall>d\<in>set ds. d < 10" using ds by (auto simp: py_decimal_def digit_value_def)
  have sg: "sg = 1 \<or> sg = -1" using ts by (auto simp: take_sign_def split: list.splits if_splits)
  have "nat \<bar>i\<bar> = digits_to_nat ds" using sg val by auto
  moreover have "digits_to_nat ds < 10 ^ length ds" using lt by (rule digits_to_nat_bound)
  ultimately have "length (nat_digits (nat \<bar>i\<bar>)) \<le> length ds"
    using ne by (intro length_nat_digits_le) auto
  with lim show ?thesis by (simp add: ndigits_def)
qed

subsection \<open>The scanner against the grammar\<close>

text \<open>
  What \<open>scan_digits prev\<close> consumes: a run of digits and single underscores, no
  underscore doubled (counting \<open>prev\<close>), none at the end, stopping before a
  character that is neither digit nor underscore.
\<close>

lemma py_decimal_underscore [simp]: "\<not> py_decimal CHR ''_''"
  by (simp add: py_decimal_def)

lemma scan_digits_complete:
  assumes "list_all (\<lambda>c. py_decimal c \<or> c = CHR ''_'') b" and "no_double_us (prev # b)"
    and "b = [] \<Longrightarrow> prev \<noteq> CHR ''_''" and "b \<noteq> [] \<Longrightarrow> last b \<noteq> CHR ''_''"
    and "case rest of [] \<Rightarrow> True | c # _ \<Rightarrow> \<not> py_decimal c \<and> c \<noteq> CHR ''_''"
  shows "scan_digits prev (b @ rest) = Some (map digit_value (filter py_decimal b), rest)"
  using assms
proof (induction b arbitrary: prev)
  case Nil
  then show ?case by (cases rest) auto
next
  case (Cons c b)
  show ?case
  proof (cases "py_decimal c")
    case True
    have "scan_digits c (b @ rest) = Some (map digit_value (filter py_decimal b), rest)"
      using Cons.prems True by (intro Cons.IH) (auto simp: no_double_us.simps(1) [of prev c b]
        split: if_splits)
    with True show ?thesis by simp
  next
    case False
    with Cons.prems(1) have u: "c = CHR ''_''" by simp
    with Cons.prems(2) have p: "prev \<noteq> CHR ''_''" by simp
    have "b \<noteq> []" using Cons.prems(4) u by auto
    then have "scan_digits c (b @ rest) = Some (map digit_value (filter py_decimal b), rest)"
      using Cons.prems u by (intro Cons.IH) auto
    with u p show ?thesis by simp
  qed
qed

lemma scan_digits_sound:
  "scan_digits prev s = Some (ds, r) \<Longrightarrow>
   \<exists>p. s = p @ r \<and> list_all (\<lambda>c. py_decimal c \<or> c = CHR ''_'') p \<and> no_double_us (prev # p) \<and>
       (p = [] \<longrightarrow> prev \<noteq> CHR ''_'') \<and> (p \<noteq> [] \<longrightarrow> last p \<noteq> CHR ''_'') \<and>
       ds = map digit_value (filter py_decimal p) \<and>
       (case r of [] \<Rightarrow> True | c # _ \<Rightarrow> \<not> py_decimal c \<and> c \<noteq> CHR ''_'')"
proof (induction prev s arbitrary: ds rule: scan_digits.induct)
  case (1 prev)
  then show ?case by (simp split: if_splits)
next
  case (2 prev c cs)
  show ?case
  proof (cases "py_decimal c")
    case True
    with "2.prems" obtain ds' where ds: "ds = digit_value c # ds'"
      and sc: "scan_digits c cs = Some (ds', r)" by auto
    from "2.IH"(1) [OF True sc] obtain p where "cs = p @ r"
      and "list_all (\<lambda>c. py_decimal c \<or> c = CHR ''_'') p" and "no_double_us (c # p)"
      and "p \<noteq> [] \<longrightarrow> last p \<noteq> CHR ''_''" and "ds' = map digit_value (filter py_decimal p)"
      and "case r of [] \<Rightarrow> True | c # _ \<Rightarrow> \<not> py_decimal c \<and> c \<noteq> CHR ''_''" by blast
    with True ds show ?thesis
      by (intro exI [of _ "c # p"]) auto
  next
    case nd: False
    show ?thesis
    proof (cases "c = CHR ''_''")
      case True
      with nd "2.prems" have pr: "prev \<noteq> CHR ''_''" and sc: "scan_digits c cs = Some (ds, r)"
        by (auto split: if_splits)
      from "2.IH"(2) [OF nd True _ sc] pr obtain p where "cs = p @ r"
        and "list_all (\<lambda>c. py_decimal c \<or> c = CHR ''_'') p" and "no_double_us (c # p)"
        and "p = [] \<longrightarrow> c \<noteq> CHR ''_''" and "p \<noteq> [] \<longrightarrow> last p \<noteq> CHR ''_''"
        and "ds = map digit_value (filter py_decimal p)"
        and "case r of [] \<Rightarrow> True | c # _ \<Rightarrow> \<not> py_decimal c \<and> c \<noteq> CHR ''_''" by blast
      with True pr show ?thesis
        by (intro exI [of _ "c # p"]) auto
    next
      case False
      with nd "2.prems" show ?thesis by (auto split: if_splits)
    qed
  qed
qed

lemma py_decimal_not_space: "py_decimal c \<Longrightarrow> \<not> py_int_space c"
  by (auto simp: py_decimal_def py_int_space_def)

lemma underscore_not_space [simp]: "\<not> py_int_space CHR ''_''"
  by (simp add: py_int_space_def)

lemma no_double_us_tl: "no_double_us (x # p) \<Longrightarrow> no_double_us p"
  by (cases p) simp_all

lemma no_double_us_Cons: "x \<noteq> CHR ''_'' \<Longrightarrow> no_double_us p \<Longrightarrow> no_double_us (x # p)"
  by (cases p) simp_all

lemma rev_dropWhile_split: "w = rev (dropWhile P (rev w)) @ rev (takeWhile P (rev w))"
  using takeWhile_dropWhile_id [of P "rev w"] by (metis rev_append rev_rev_ident)

lemma strip_tail:
  assumes "list_all P r" and "p \<noteq> []" and "\<not> P (last p)"
  shows "rev (dropWhile P (rev (x @ p @ r))) = x @ p"
proof -
  have "dropWhile P (rev r @ rev p @ rev x) = dropWhile P (rev p @ rev x)"
    using assms(1) by (simp add: dropWhile_append list_all_iff)
  also have "\<dots> = rev p @ rev x"
    using assms(2,3) by (cases "rev p") (auto simp: last_rev [symmetric])
  finally show ?thesis by simp
qed

lemma take_sign_append:
  "take_sign t = (sg, b) \<Longrightarrow> b \<noteq> [] \<Longrightarrow> take_sign (t @ w) = (sg, b @ w)"
  by (auto simp: take_sign_def split: list.splits if_splits)

lemma ref_sign_take_sign:
  "(case t of c # b \<Rightarrow> if c = CHR ''-'' then (-1, b) else if c = CHR ''+'' then (1, b) else (1, t)
              | [] \<Rightarrow> (1, [])) = take_sign t"
  by (auto simp: take_sign_def split: list.split)

lemma py_int_ref_eq:
  "py_int_ref u =
     (let (sg, b) = take_sign (py_strip u); ds = map digit_value (filter py_decimal b)
      in if py_digitpart b \<and> length ds \<le> int_max_str_digits
         then Some (sg * int (digits_to_nat ds)) else None)"
  unfolding py_int_ref_def ref_sign_take_sign by (simp add: Let_def)

lemma py_decimal_take_sign: "py_decimal c \<Longrightarrow> take_sign (c # r) = (1, c # r)"
  by (auto simp: take_sign_def py_decimal_def)

lemma py_int_of_str_ref_sound:
  assumes "py_int_of_str u = Inr i"
  shows "py_int_ref u = Some i"
proof -
  obtain sg s where ts: "take_sign (dropWhile py_int_space u) = (sg, s)" by fastforce
  with assms obtain ds rest where sc: "scan_digits (CHR 0x00) s = Some (ds, rest)"
    and nu: "case s of c # _ \<Rightarrow> c \<noteq> CHR ''_'' | [] \<Rightarrow> True"
    by (auto simp: py_int_of_str_def split: option.splits if_splits list.splits)
  from assms ts sc have ne: "ds \<noteq> []" and lim: "length ds \<le> int_max_str_digits"
    and sp: "dropWhile py_int_space rest = []" and val: "i = sg * int (digits_to_nat ds)"
    by (auto simp: py_int_of_str_def max_str_digits_threshold_def int_max_str_digits_def
        split: if_splits)
  from scan_digits_sound [OF sc] obtain p where s: "s = p @ rest"
    and ch: "list_all (\<lambda>c. py_decimal c \<or> c = CHR ''_'') p" and nd: "no_double_us (CHR 0x00 # p)"
    and la: "p \<noteq> [] \<longrightarrow> last p \<noteq> CHR ''_''" and ds: "ds = map digit_value (filter py_decimal p)"
    by blast
  have pne: "p \<noteq> []" using ne ds by auto
  have hd: "py_decimal (hd p)" using ch nu s pne by (cases p) auto
  have lst: "py_decimal (last p)" using ch la pne by (auto simp: list_all_iff)
  have dp: "py_digitpart p" using pne hd lst ch no_double_us_tl [OF nd] by (simp add: py_digitpart_def)
  have rsp: "list_all py_int_space rest" using sp by (simp add: list_all_iff)
  have tp: "take_sign p = (1, p)" using hd pne py_decimal_take_sign [of "hd p" "tl p"] by simp
  have strip: "take_sign (py_strip u) = (sg, p)"
  proof -
    have nsp: "\<not> py_int_space (last p)" using lst by (rule py_decimal_not_space)
    from take_sign_cases [OF ts] consider (n) "dropWhile py_int_space u = s"
      | (c) c where "dropWhile py_int_space u = c # s" "c = CHR ''+'' \<or> c = CHR ''-''" by blast
    then show ?thesis
    proof cases
      case n
      then have "py_strip u = p" using strip_tail [OF rsp pne nsp, of "[]"] s by (simp add: py_strip_def)
      moreover have "sg = 1" using ts n s take_sign_append [OF tp pne, of rest] by simp
      ultimately show ?thesis using tp by simp
    next
      case c
      then have "py_strip u = c # p" using strip_tail [OF rsp pne nsp, of "[c]"] s by (simp add: py_strip_def)
      moreover have "take_sign (c # p) = (sg, p)" using ts c by (auto simp: take_sign_def)
      ultimately show ?thesis by simp
    qed
  qed
  show ?thesis using strip dp lim ds val by (simp add: py_int_ref_eq)
qed

lemma py_int_ref_complete:
  assumes "py_int_ref u = Some i"
  shows "py_int_of_str u = Inr i"
proof -
  obtain sg b where ts: "take_sign (py_strip u) = (sg, b)" by fastforce
  let ?ds = "map digit_value (filter py_decimal b)"
  from assms ts have dp: "py_digitpart b" and lim: "length ?ds \<le> int_max_str_digits"
    and val: "i = sg * int (digits_to_nat ?ds)"
    by (auto simp: py_int_ref_eq split: if_splits)
  let ?w = "rev (takeWhile py_int_space (rev (dropWhile py_int_space u)))"
  have dw: "dropWhile py_int_space u = py_strip u @ ?w"
    using rev_dropWhile_split [of "dropWhile py_int_space u" py_int_space] by (simp add: py_strip_def)
  have wsp: "list_all py_int_space ?w" by (auto simp: list_all_iff dest: set_takeWhileD)
  have bne: "b \<noteq> []" and hdb: "py_decimal (hd b)" and lb: "py_decimal (last b)"
    and ch: "list_all (\<lambda>c. py_decimal c \<or> c = CHR ''_'') b" and nd: "no_double_us b"
    using dp by (simp_all add: py_digitpart_def)
  have ts2: "take_sign (dropWhile py_int_space u) = (sg, b @ ?w)"
    using take_sign_append [OF ts bne] dw by metis
  have sc: "scan_digits (CHR 0x00) (b @ ?w) = Some (?ds, ?w)"
  proof (rule scan_digits_complete [OF ch])
    show "no_double_us (CHR 0x00 # b)" using nd by (rule no_double_us_Cons [rotated]) simp
    show "b \<noteq> [] \<Longrightarrow> last b \<noteq> CHR ''_''" using lb by auto
    show "case ?w of [] \<Rightarrow> True | c # _ \<Rightarrow> \<not> py_decimal c \<and> c \<noteq> CHR ''_''"
      using wsp by (cases ?w) (auto dest: py_decimal_not_space)
  qed (use bne in simp)
  have dsne: "?ds \<noteq> []" using hdb bne by (cases b) auto
  have "dropWhile py_int_space ?w = []" using wsp by (simp add: list_all_iff)
  then show ?thesis using ts2 sc hdb bne lim dsne val
    by (cases b) (auto simp: py_int_of_str_def max_str_digits_threshold_def int_max_str_digits_def)
qed

text \<open>
  C27. Equivalence of the scanner with the grammar: \<^verbatim>\<open>int(u)\<close> returns \<open>i\<close>
  exactly when \<open>u\<close> is, after stripping white space, an optional sign followed by a
  \<^verbatim>\<open>digitpart\<close> of at most 4300 digits whose value with that sign is \<open>i\<close>; on every
  other text it raises.
\<close>

theorem py_int_of_str_grammar: "py_int_of_str u = Inr i \<longleftrightarrow> py_int_ref u = Some i"
proof
  show "py_int_of_str u = Inr i \<Longrightarrow> py_int_ref u = Some i" by (rule py_int_of_str_ref_sound)
  show "py_int_ref u = Some i \<Longrightarrow> py_int_of_str u = Inr i" by (rule py_int_ref_complete)
qed

subsection \<open>The error text\<close>

lemma repr_char_plain:
  "32 \<le> (of_char c :: nat) \<Longrightarrow> (of_char c :: nat) \<le> 126 \<Longrightarrow> c \<noteq> q \<Longrightarrow> c \<noteq> CHR 0x5C \<Longrightarrow>
   repr_char q c = [c]"
  by (simp add: repr_char_def Let_def)

lemma concat_repr_plain:
  "list_all (\<lambda>c. 32 \<le> (of_char c :: nat) \<and> (of_char c :: nat) \<le> 126 \<and> c \<noteq> q \<and> c \<noteq> CHR 0x5C) u \<Longrightarrow>
   concat (map (repr_char q) u) = u"
  by (induction u) (simp_all add: repr_char_plain)

text \<open>
  C25. The \<^verbatim>\<open>ValueError\<close> text of \<^verbatim>\<open>int()\<close>, which the error handler sends
  back to the client, echoes the refused value: for a value of at most 198 printable ASCII
  characters without quote or backslash it is the fixed prefix followed by the value
  itself in single quotes.
\<close>

theorem invalid_literal_echoes_input:
  assumes "list_all (\<lambda>c. 32 \<le> (of_char c :: nat) \<and> (of_char c :: nat) \<le> 126 \<and>
             c \<noteq> CHR 0x27 \<and> c \<noteq> CHR 0x5C) u"
    and "length u \<le> 198"
  shows "invalid_literal u =
         ValueError (''invalid literal for int() with base 10: '' @ [CHR 0x27] @ u @ [CHR 0x27])"
proof -
  have "CHR 0x27 \<notin> set u" using assms(1) by (auto simp: list_all_iff)
  moreover have "concat (map (repr_char (CHR 0x27)) u) = u"
    using assms(1) by (rule concat_repr_plain)
  ultimately have "py_repr u = CHR 0x27 # u @ [CHR 0x27]"
    by (simp add: py_repr_def Let_def)
  with assms(2) show ?thesis
    by (simp add: invalid_literal_def)
qed

subsection \<open>Witnesses\<close>

theorem int_repr_roundtrip_witness: "py_int_of_str ''-42'' = Inr (-42)"
proof -
  have "int_repr (-42) = Inr ''-42''" by code_simp
  then show ?thesis by (rule int_repr_roundtrip)
qed

theorem py_int_of_str_digit_limit_witness:
  "py_int_of_str (map digit_char (replicate 4301 7)) = Inl (limit_to_int 4301)"
  using py_int_of_str_digit_limit [of "replicate 4301 7"] by (simp add: int_max_str_digits_def)

theorem py_int_of_str_charset_witness:
  "list_all (\<lambda>c. py_int_space c \<or> py_decimal c \<or> c \<in> {CHR ''+'', CHR ''-'', CHR ''_''}) ''+1_0'' \<and>
   list_ex py_decimal ''+1_0''"
proof -
  have "py_int_of_str ''+1_0'' = Inr 10" by code_simp
  from py_int_of_str_charset [OF this] show ?thesis
    unfolding list_all_iff list_ex_iff .
qed

theorem py_int_of_str_within_limit_witness: "ndigits 10 \<le> int_max_str_digits"
proof -
  have "py_int_of_str '' 1_0'' = Inr 10" by code_simp
  then show ?thesis by (rule py_int_of_str_within_limit)
qed

theorem invalid_literal_echoes_input_witness:
  "invalid_literal ''abc'' = ValueError (''invalid literal for int() with base 10: '' @ [CHR 0x27] @ ''abc'' @ [CHR 0x27])"
  by (rule invalid_literal_echoes_input) simp_all

end
