(* ===== verification/BadFunction.thy ===== *)
theory BadFunction
  imports Prelude
begin

text \<open>
  \<^verbatim>\<open>badFunction(x, y)\<close> of \<^verbatim>\<open>src/app.py\<close>, the pure function behind
  \<^verbatim>\<open>/calculate\<close>, on Python's unbounded integers. Its unused local \<^verbatim>\<open>z\<close> is kept.
  The spec describes it flattened (\<^verbatim>\<open>if x>10 and y>10: product; elif x>10: sum;
  else: 0\<close>); \<open>calculate_spec\<close> is that description, and the nested branches of the
  code are shown to compute it.
\<close>

definition badFunction :: "int \<Rightarrow> int \<Rightarrow> int" where
  "badFunction x y =
     (let z = x + y in
      if x > 10 then (if y > 10 then x * y else x + y) else 0)"

definition calculate_spec :: "int \<Rightarrow> int \<Rightarrow> int" where
  "calculate_spec x y = (if x > 10 \<and> y > 10 then x * y else if x > 10 then x + y else 0)"

text \<open>
  C2. The nested conditionals of \<^verbatim>\<open>badFunction\<close> compute the spec's flattened case
  distinction on every input.
\<close>

theorem badFunction_eq_spec: "badFunction x y = calculate_spec x y"
  by (simp add: badFunction_def calculate_spec_def Let_def)

end
