(* ===== verification/Metrics.thy ===== *)
theory Metrics
  imports Prelude
begin

text \<open>
  The Prometheus client objects that \<^verbatim>\<open>src/app.py\<close> creates at import time and
  updates per request, as \<^verbatim>\<open>prometheus_client\<close> implements the calls the code makes:
  \<^verbatim>\<open>Counter.inc()\<close>, \<^verbatim>\<open>Histogram.observe(v)\<close> with the default buckets, and
  \<^verbatim>\<open>labels(endpoint=...)\<close> of a labelled histogram, which creates a child on first use.
  A histogram keeps one non-cumulative count per upper bound plus the +Inf bucket, and
  the running sum; the exposition format shows cumulative counts. The abstract view of a
  histogram is the multiset of the values it observed (\<open>hist_abs\<close>).
\<close>

subsection \<open>Counters\<close>

text \<open>
  A counter's value is a float in the client; the code only ever calls \<^verbatim>\<open>inc()\<close>
  (amount 1), so its values are natural numbers, exact below \<open>2 ^ 53\<close>.
\<close>

record pcounter =
  c_value :: nat
  c_created :: seconds

definition counter_new :: "seconds \<Rightarrow> pcounter" where
  "counter_new t = \<lparr>c_value = 0, c_created = t\<rparr>"

definition counter_inc :: "pcounter \<Rightarrow> pcounter" where
  "counter_inc c = c\<lparr>c_value := Suc (c_value c)\<rparr>"

subsection \<open>Histograms\<close>

text \<open>
  \<open>h_upper_bounds\<close> are the finite upper bounds in ascending order; the client appends
  \<open>+Inf\<close>, which is the last entry of \<open>h_buckets\<close> here.
\<close>

record histogram =
  h_upper_bounds :: "real list"
  h_buckets :: "nat list"
  h_sum :: real
  h_created :: seconds

definition default_buckets :: "real list" where
  "default_buckets = [0.005, 0.01, 0.025, 0.05, 0.075, 0.1, 0.25, 0.5, 0.75, 1.0, 2.5, 5.0, 7.5, 10.0]"

definition hist_new :: "real list \<Rightarrow> seconds \<Rightarrow> histogram" where
  "hist_new bs t =
     \<lparr>h_upper_bounds = bs, h_buckets = replicate (Suc (length bs)) 0, h_sum = 0, h_created = t\<rparr>"

text \<open>
  \<^verbatim>\<open>for i, bound in enumerate(self._upper_bounds): if amount <= bound: ... break\<close>:
  the first bucket whose bound is not below the value; past the finite bounds, +Inf.
\<close>

fun bucket_index :: "real list \<Rightarrow> real \<Rightarrow> nat" where
  "bucket_index [] v = 0"
| "bucket_index (b # bs) v = (if v \<le> b then 0 else Suc (bucket_index bs v))"

definition hist_observe :: "real \<Rightarrow> histogram \<Rightarrow> histogram" where
  "hist_observe v h =
     h\<lparr>h_sum := h_sum h + v, h_buckets := inc_at (bucket_index (h_upper_bounds h) v) (h_buckets h)\<rparr>"

definition hist_count :: "histogram \<Rightarrow> nat" where
  "hist_count h = sum_list (h_buckets h)"

text \<open>\<^verbatim>\<open>_multi_samples\<close>: the \<^verbatim>\<open>_bucket\<close> samples accumulate the counts.\<close>

definition hist_cumulative :: "histogram \<Rightarrow> nat list" where
  "hist_cumulative h = map (\<lambda>i. sum_list (take (Suc i) (h_buckets h))) [0..<length (h_buckets h)]"

definition hist_wf :: "histogram \<Rightarrow> bool" where
  "hist_wf h \<longleftrightarrow> length (h_buckets h) = Suc (length (h_upper_bounds h)) \<and> sorted (h_upper_bounds h)"

subsection \<open>Labelled histograms\<close>

text \<open>
  A histogram declared with label names keeps its children in a dictionary keyed by the
  label values (here the one \<^verbatim>\<open>endpoint\<close> label); \<^verbatim>\<open>labels(...)\<close> returns the
  child, creating it with the parent's buckets and the current time when the key is new.
\<close>

type_synonym labelled_hist = "(py_str \<times> histogram) list"

definition hist_labels :: "py_str \<Rightarrow> seconds \<Rightarrow> labelled_hist \<Rightarrow> histogram \<times> labelled_hist" where
  "hist_labels k t lh =
     (case map_of lh k of
        Some h \<Rightarrow> (h, lh)
      | None \<Rightarrow> let h = hist_new default_buckets t in (h, lh @ [(k, h)]))"

definition labelled_observe :: "py_str \<Rightarrow> real \<Rightarrow> seconds \<Rightarrow> labelled_hist \<Rightarrow> labelled_hist" where
  "labelled_observe k v t lh = (let (h, lh') = hist_labels k t lh in assoc_upd k (hist_observe v h) lh')"

definition labelled_count :: "labelled_hist \<Rightarrow> py_str \<Rightarrow> nat" where
  "labelled_count lh k = (case map_of lh k of Some h \<Rightarrow> hist_count h | None \<Rightarrow> 0)"

definition labelled_total :: "labelled_hist \<Rightarrow> nat" where
  "labelled_total lh = (\<Sum>p\<leftarrow>lh. hist_count (snd p))"

definition labelled_wf :: "labelled_hist \<Rightarrow> bool" where
  "labelled_wf lh \<longleftrightarrow> distinct (map fst lh) \<and>
     (\<forall>p\<in>set lh. hist_wf (snd p) \<and> h_upper_bounds (snd p) = default_buckets)"

subsection \<open>The abstract histogram\<close>

definition bucket_counts :: "real list \<Rightarrow> real multiset \<Rightarrow> nat list" where
  "bucket_counts bs M = map (\<lambda>i. size (filter_mset (\<lambda>v. bucket_index bs v = i) M)) [0..<Suc (length bs)]"

definition hist_abs :: "real multiset \<Rightarrow> histogram \<Rightarrow> bool" where
  "hist_abs M h \<longleftrightarrow> h_buckets h = bucket_counts (h_upper_bounds h) M \<and> h_sum h = sum_mset M"

subsection \<open>Histogram operations\<close>

lemma bucket_index_le: "bucket_index bs v \<le> length bs"
  by (induction bs) auto

lemma bucket_index_le_iff:
  "sorted bs \<Longrightarrow> i < length bs \<Longrightarrow> bucket_index bs v \<le> i \<longleftrightarrow> v \<le> bs ! i"
proof (induction bs arbitrary: i)
  case Nil
  then show ?case by simp
next
  case (Cons b bs)
  show ?case
  proof (cases i)
    case 0
    then show ?thesis by simp
  next
    case (Suc j)
    with Cons.prems have "b \<le> bs ! j" and "j < length bs" by auto
    with Cons.IH [of j] Cons.prems Suc show ?thesis by (auto intro: order_trans)
  qed
qed

lemma hist_observe_fields [simp, hist_simps]:
  "h_upper_bounds (hist_observe v h) = h_upper_bounds h"
  "h_created (hist_observe v h) = h_created h"
  "h_sum (hist_observe v h) = h_sum h + v"
  by (simp_all add: hist_observe_def)

lemma hist_new_fields [simp, hist_simps]:
  "h_upper_bounds (hist_new bs t) = bs" "h_created (hist_new bs t) = t" "h_sum (hist_new bs t) = 0"
  by (simp_all add: hist_new_def)

lemma hist_wf_new [hist_simps]: "sorted bs \<Longrightarrow> hist_wf (hist_new bs t)"
  by (simp add: hist_wf_def hist_new_def)

lemma hist_wf_observe [hist_simps]: "hist_wf h \<Longrightarrow> hist_wf (hist_observe v h)"
  by (simp add: hist_wf_def hist_observe_def)

lemma hist_count_new [simp, hist_simps]: "hist_count (hist_new bs t) = 0"
  by (simp add: hist_count_def hist_new_def)

lemma hist_count_observe [hist_simps]: "hist_wf h \<Longrightarrow> hist_count (hist_observe v h) = Suc (hist_count h)"
  using bucket_index_le [of "h_upper_bounds h" v]
  by (simp add: hist_count_def hist_observe_def hist_wf_def)

lemma size_filter_mset_le_Suc:
  "size (filter_mset (\<lambda>v. f v \<le> Suc i) M) =
   size (filter_mset (\<lambda>v. f v \<le> i) M) + size (filter_mset (\<lambda>v. f v = Suc i) M)"
  by (induction M) auto

lemma bucket_counts_add [hist_simps]:
  "bucket_counts bs (add_mset v M) = inc_at (bucket_index bs v) (bucket_counts bs M)"
  using bucket_index_le [of bs v]
  by (auto simp: bucket_counts_def list_eq_iff_nth_eq nth_inc_at simp del: upt_Suc)

lemma hist_abs_new [hist_simps]: "hist_abs {#} (hist_new bs t)"
  by (simp add: hist_abs_def hist_new_def bucket_counts_def map_replicate_const)

lemma hist_abs_observe [hist_simps]: "hist_abs M h \<Longrightarrow> hist_abs (add_mset v M) (hist_observe v h)"
  by (simp add: hist_abs_def hist_observe_def bucket_counts_add)

lemma sum_take_bucket_counts:
  "i \<le> length bs \<Longrightarrow>
   sum_list (take (Suc i) (bucket_counts bs M)) = size (filter_mset (\<lambda>v. bucket_index bs v \<le> i) M)"
proof (induction i)
  case 0
  then show ?case by (simp add: bucket_counts_def take_Suc_conv_app_nth del: upt_Suc)
next
  case (Suc i)
  have "take (Suc (Suc i)) (bucket_counts bs M) =
        take (Suc i) (bucket_counts bs M) @ [bucket_counts bs M ! Suc i]"
    using Suc.prems by (simp add: take_Suc_conv_app_nth bucket_counts_def del: upt_Suc)
  with Suc show ?case
    by (simp add: size_filter_mset_le_Suc bucket_counts_def nth_append del: upt_Suc)
qed

subsection \<open>Labelled histograms\<close>

lemma assoc_upd_snoc_new:
  "k \<notin> set (map fst lh) \<Longrightarrow> assoc_upd k v (lh @ [(k, w)]) = lh @ [(k, v)]"
  by (induction lh) auto

lemma labelled_observe_cases:
  "labelled_observe k v t lh =
     (case map_of lh k of
        Some h \<Rightarrow> assoc_upd k (hist_observe v h) lh
      | None \<Rightarrow> lh @ [(k, hist_observe v (hist_new default_buckets t))])"
proof (cases "map_of lh k")
  case None
  then have "k \<notin> set (map fst lh)" by (simp add: map_of_eq_None_iff)
  with None show ?thesis by (simp add: labelled_observe_def hist_labels_def Let_def assoc_upd_snoc_new)
next
  case (Some h)
  then show ?thesis by (simp add: labelled_observe_def hist_labels_def)
qed

lemma sorted_default_buckets: "sorted default_buckets"
  by (simp add: default_buckets_def)

lemma labelled_wf_observe [hist_simps]:
  assumes "labelled_wf lh"
  shows "labelled_wf (labelled_observe k v t lh)"
proof (cases "map_of lh k")
  case None
  then have eq: "labelled_observe k v t lh = lh @ [(k, hist_observe v (hist_new default_buckets t))]"
    by (simp add: labelled_observe_cases)
  from None have "k \<notin> set (map fst lh)" by (simp add: map_of_eq_None_iff)
  with assms show ?thesis
    by (auto simp: eq labelled_wf_def hist_wf_new hist_wf_observe sorted_default_buckets)
next
  case (Some h)
  then have "(k, h) \<in> set lh" by (rule map_of_SomeD)
  with assms Some show ?thesis
    by (auto simp: labelled_observe_cases labelled_wf_def set_assoc_upd hist_wf_observe)
qed

lemma labelled_count_observe [hist_simps]:
  assumes "labelled_wf lh"
  shows "labelled_count (labelled_observe k v t lh) k' = labelled_count lh k' + (if k' = k then 1 else 0)"
proof (cases "map_of lh k")
  case None
  then have eq: "labelled_observe k v t lh = lh @ [(k, hist_observe v (hist_new default_buckets t))]"
    by (simp add: labelled_observe_cases)
  from None show ?thesis
    by (auto simp: eq labelled_count_def hist_count_observe hist_wf_new sorted_default_buckets
        split: option.splits)
next
  case (Some h)
  then have "(k, h) \<in> set lh" by (rule map_of_SomeD)
  with assms Some show ?thesis
    by (auto simp: labelled_observe_cases labelled_count_def labelled_wf_def hist_count_observe)
qed

lemma labelled_total_observe [hist_simps]:
  assumes "labelled_wf lh"
  shows "labelled_total (labelled_observe k v t lh) = Suc (labelled_total lh)"
proof (cases "map_of lh k")
  case None
  with assms show ?thesis
    by (simp add: labelled_observe_cases labelled_total_def hist_count_observe hist_wf_new
        sorted_default_buckets)
next
  case (Some h)
  then have h: "(k, h) \<in> set lh" by (rule map_of_SomeD)
  with assms have wf: "hist_wf h" and d: "distinct (map fst lh)" by (auto simp: labelled_wf_def)
  have le: "hist_count h \<le> labelled_total lh"
    using h member_le_sum_list [of "hist_count h" "map (\<lambda>p. hist_count (snd p)) lh"]
    by (force simp: labelled_total_def)
  from sum_list_assoc_upd [OF d, where f = hist_count and k = k and v = "hist_observe v h"] Some wf le
  show ?thesis
    by (simp add: labelled_observe_cases labelled_total_def hist_count_observe)
qed

lemma labelled_keys_observe:
  "map fst (labelled_observe k v t lh) = (if k \<in> set (map fst lh) then map fst lh else map fst lh @ [k])"
  by (auto simp: labelled_observe_cases keys_assoc_upd map_of_eq_None_iff dest: map_of_SomeD
      split: option.splits)

text \<open>
  C26. Refinement of the labelled histogram by a map, in the manner of a map ADT: seen
  through \<open>map_of\<close>, \<^verbatim>\<open>labels(endpoint=k).observe(v)\<close> updates the child of
  \<open>k\<close> to that child (or a fresh default-bucket child created at \<open>t\<close>) after
  \<open>observe(v)\<close>, and leaves every other label's child alone; the children keep their
  order of creation, a new label going last.
\<close>

theorem labelled_observe_refines_map:
  "map_of (labelled_observe k v t lh) =
     (map_of lh)(k \<mapsto> hist_observe v (case map_of lh k of Some h \<Rightarrow> h | None \<Rightarrow> hist_new default_buckets t)) \<and>
   map fst (labelled_observe k v t lh) = (if k \<in> set (map fst lh) then map fst lh else map fst lh @ [k])"
proof
  show "map fst (labelled_observe k v t lh) = (if k \<in> set (map fst lh) then map fst lh else map fst lh @ [k])"
    by (rule labelled_keys_observe)
  show "map_of (labelled_observe k v t lh) =
     (map_of lh)(k \<mapsto> hist_observe v (case map_of lh k of Some h \<Rightarrow> h | None \<Rightarrow> hist_new default_buckets t))"
  proof (cases "map_of lh k")
    case None
    then show ?thesis by (simp add: labelled_observe_cases map_add_def fun_eq_iff split: option.split)
  next
    case (Some h)
    then show ?thesis by (simp add: labelled_observe_cases)
  qed
qed

subsection \<open>Bounds on the observations\<close>

lemma labelled_obs_observe:
  assumes "\<forall>p\<in>set lh. \<exists>M. hist_abs M (snd p) \<and> (\<forall>w\<in>#M. P w)" and "P v"
    and "distinct (map fst lh)"
  shows "\<forall>p\<in>set (labelled_observe k v t lh). \<exists>M. hist_abs M (snd p) \<and> (\<forall>w\<in>#M. P w)"
proof (cases "map_of lh k")
  case None
  have "hist_abs {#v#} (hist_observe v (hist_new default_buckets t))"
    using hist_abs_observe [OF hist_abs_new] by simp
  with None assms show ?thesis by (auto simp: labelled_observe_cases)
next
  case (Some h)
  then have "(k, h) \<in> set lh" by (rule map_of_SomeD)
  with assms obtain M where "hist_abs M h" "\<forall>w\<in>#M. P w" by fastforce
  then have "hist_abs (add_mset v M) (hist_observe v h) \<and> (\<forall>w\<in>#add_mset v M. P w)"
    using assms(2) by (auto intro: hist_abs_observe)
  then have "\<exists>M. hist_abs M (hist_observe v h) \<and> (\<forall>w\<in>#M. P w)" by blast
  with Some assms show ?thesis by (auto simp: labelled_observe_cases set_assoc_upd)
qed

lemma hist_abs_low_bucket:
  assumes "hist_abs M h" and "sorted (h_upper_bounds h)" and "\<forall>v\<in>#M. m \<le> v"
    and "i < length (h_upper_bounds h)" and "h_upper_bounds h ! i < m"
  shows "h_buckets h ! i = 0"
proof -
  have "bucket_index (h_upper_bounds h) v \<noteq> i" if "v \<in># M" for v
    using bucket_index_le_iff [OF assms(2,4), of v] assms(3,5) that by fastforce
  then have "filter_mset (\<lambda>v. bucket_index (h_upper_bounds h) v = i) M = {#}"
    by (auto simp: filter_mset_eq_conv)
  with assms(1,4) show ?thesis
    by (simp add: hist_abs_def bucket_counts_def nth_append del: upt_Suc)
qed

subsection \<open>Refinement of the exposition\<close>

text \<open>
  C6. Refinement of the histogram: if the bucket counts and the sum represent a multiset
  of observations, the exposition's cumulative \<^verbatim>\<open>_bucket\<close> samples are, for each
  upper bound, the number of observations not above it, the \<^verbatim>\<open>+Inf\<close> sample is the
  number of all observations, and \<^verbatim>\<open>_sum\<close> is their sum.
\<close>

theorem hist_exposition_refines:
  assumes "hist_abs M h" and "sorted (h_upper_bounds h)"
  shows "hist_cumulative h = map (\<lambda>b. size (filter_mset (\<lambda>v. v \<le> b) M)) (h_upper_bounds h) @ [size M] \<and>
         h_sum h = sum_mset M"
proof -
  let ?bs = "h_upper_bounds h"
  have hb: "h_buckets h = bucket_counts ?bs M" and sum: "h_sum h = sum_mset M"
    using assms(1) by (simp_all add: hist_abs_def)
  have len: "length (h_buckets h) = Suc (length ?bs)" by (simp add: hb bucket_counts_def)
  have nth: "hist_cumulative h ! i = size (filter_mset (\<lambda>v. bucket_index ?bs v \<le> i) M)"
    if "i \<le> length ?bs" for i
    using that len by (simp add: hist_cumulative_def hb sum_take_bucket_counts del: upt_Suc)
  have fin: "filter_mset (\<lambda>v. bucket_index ?bs v \<le> length ?bs) M = M"
    using bucket_index_le [of ?bs] by (simp add: filter_mset_eq_conv)
  have "hist_cumulative h ! i = (map (\<lambda>b. size (filter_mset (\<lambda>v. v \<le> b) M)) ?bs @ [size M]) ! i"
    if "i < Suc (length ?bs)" for i
  proof (cases "i < length ?bs")
    case True
    then show ?thesis
      using nth [of i] bucket_index_le_iff [OF assms(2) True] by (simp add: nth_append)
  next
    case False
    with that have "i = length ?bs" by simp
    then show ?thesis using nth [of i] fin by (simp add: nth_append)
  qed
  moreover have "length (hist_cumulative h) = Suc (length ?bs)"
    by (simp add: hist_cumulative_def len)
  ultimately show ?thesis using sum by (simp add: list_eq_iff_nth_eq)
qed


subsection \<open>Witnesses\<close>

theorem hist_exposition_refines_witness:
  "hist_cumulative (hist_observe 2 (hist_new default_buckets 0)) =
     [0, 0, 0, 0, 0, 0, 0, 0, 0, 0, 1, 1, 1, 1, 1] \<and>
   h_sum (hist_observe 2 (hist_new default_buckets 0)) = 2"
proof -
  have abs: "hist_abs {#2#} (hist_observe 2 (hist_new default_buckets 0))"
    using hist_abs_observe [OF hist_abs_new] by simp
  have "sorted (h_upper_bounds (hist_observe 2 (hist_new default_buckets 0)))"
    by (simp add: sorted_default_buckets)
  from hist_exposition_refines [OF abs this] show ?thesis
    by (simp add: default_buckets_def)
qed

end
