(* ===== verification/App.thy ===== *)
theory App
  imports PyInt BadFunction Metrics
begin

text \<open>
  The Flask application of \<^verbatim>\<open>src/app.py\<close> and the part of Flask, Werkzeug and
  \<^verbatim>\<open>prometheus_flask_exporter\<close> that decides what a request does to it. The module's
  globals are one record, \<open>app_state\<close>: the global \<^verbatim>\<open>counter\<close>, the registry of the
  four metric objects, and the parts of the outside world the code reads (the wall clock of
  \<^verbatim>\<open>time.time()\<close>, the output sequence of \<^verbatim>\<open>random.random()\<close>, \<^verbatim>\<open>os.environ\<close>).
  A request goes through \<open>wsgi_app\<close>: URL matching, the \<^verbatim>\<open>before_request\<close> hook
  \<open>start_timer\<close>, the view (or the routing exception), the \<^verbatim>\<open>errorhandler(Exception)\<close>
  \<open>handle_exception\<close> for any exception, and the \<^verbatim>\<open>after_request\<close> hook
  \<open>record_latency\<close>. Exceptions are the \<open>Inl\<close> values of a view's result, paired
  with the state at the point of the raise.
\<close>

subsection \<open>Requests, JSON and responses\<close>

record request =
  request_method :: py_str
  path :: py_str
  args :: "(py_str \<times> py_str) list"

datatype json = JStr py_str | JInt int | JObj "(py_str \<times> json) list"

text \<open>
  \<^verbatim>\<open>jsonify\<close> serialises at once, inside the view: every integer goes through
  \<^verbatim>\<open>int.__repr__\<close>, whose digit limit raises \<^verbatim>\<open>ValueError\<close> in the view.
\<close>

fun json_int_error :: "json \<Rightarrow> py_exc option"
  and json_fields_error :: "(py_str \<times> json) list \<Rightarrow> py_exc option" where
  "json_int_error (JStr s) = None"
| "json_int_error (JInt i) = (case int_repr i of Inl e \<Rightarrow> Some e | Inr _ \<Rightarrow> None)"
| "json_int_error (JObj fs) = json_fields_error fs"
| "json_fields_error [] = None"
| "json_fields_error ((k, v) # fs) =
     (case json_int_error v of Some e \<Rightarrow> Some e | None \<Rightarrow> json_fields_error fs)"

subsection \<open>The metric registry and the application state\<close>

record registry =
  visit_counter :: pcounter
  calc_time :: histogram
  error_counter :: pcounter
  request_latency :: labelled_hist

datatype resp_body = Json json | No_body | Exposition registry

record response =
  status :: nat
  body :: resp_body

definition jsonify :: "json \<Rightarrow> py_exc + response" where
  "jsonify j = (case json_int_error j of Some e \<Rightarrow> Inl e | None \<Rightarrow> Inr \<lparr>status = 200, body = Json j\<rparr>)"

record app_state =
  counter :: int
  reg :: registry
  clock :: seconds
  rnd :: "nat \<Rightarrow> real"
  rnd_pos :: nat
  environ :: "py_str \<rightharpoonup> py_str"

text \<open>
  Importing the module at time \<open>t\<close>: \<^verbatim>\<open>counter = 0\<close>, the two counters and
  \<^verbatim>\<open>calc_time\<close> created, \<^verbatim>\<open>request_latency\<close> with no child yet.
\<close>

definition init_registry :: "seconds \<Rightarrow> registry" where
  "init_registry t =
     \<lparr>visit_counter = counter_new t, calc_time = hist_new default_buckets t,
      error_counter = counter_new t, request_latency = []\<rparr>"

definition init_state :: "(nat \<Rightarrow> real) \<Rightarrow> (py_str \<rightharpoonup> py_str) \<Rightarrow> seconds \<Rightarrow> app_state" where
  "init_state r env t =
     \<lparr>counter = 0, reg = init_registry t, clock = t, rnd = r, rnd_pos = 0, environ = env\<rparr>"

subsection \<open>The outside world\<close>

definition time_time :: "app_state \<Rightarrow> seconds" where
  "time_time s = clock s"

definition time_sleep :: "seconds \<Rightarrow> app_state \<Rightarrow> app_state" where
  "time_sleep d s = s\<lparr>clock := clock s + d\<rparr>"

text \<open>CPython's \<^verbatim>\<open>random.uniform(a, b)\<close> is \<^verbatim>\<open>a + (b - a) * self.random()\<close>.\<close>

definition random_uniform :: "real \<Rightarrow> real \<Rightarrow> app_state \<Rightarrow> real \<times> app_state" where
  "random_uniform a b s = (a + (b - a) * rnd s (rnd_pos s), s\<lparr>rnd_pos := Suc (rnd_pos s)\<rparr>)"

definition os_environ_get :: "py_str \<Rightarrow> py_str \<Rightarrow> app_state \<Rightarrow> py_str" where
  "os_environ_get k d s = (case environ s k of Some v \<Rightarrow> v | None \<Rightarrow> d)"

subsection \<open>Routing\<close>

datatype endpoint = Hello_world | Health_check | Get_info | Calculate | Prometheus_metrics

fun endpoint_name :: "endpoint \<Rightarrow> py_str" where
  "endpoint_name Hello_world = ''hello_world''"
| "endpoint_name Health_check = ''health_check''"
| "endpoint_name Get_info = ''get_info''"
| "endpoint_name Calculate = ''calculate''"
| "endpoint_name Prometheus_metrics = ''prometheus_metrics''"

text \<open>
  The URL map: \<^verbatim>\<open>PrometheusMetrics(app)\<close> registers \<^verbatim>\<open>/metrics\<close> first, then the
  four \<^verbatim>\<open>@app.route\<close> rules. Every rule is for \<^verbatim>\<open>GET\<close>; Werkzeug adds
  \<^verbatim>\<open>HEAD\<close> and Flask adds \<^verbatim>\<open>OPTIONS\<close>. A path with no rule raises
  \<^verbatim>\<open>NotFound\<close>, a rule's path with another method \<^verbatim>\<open>MethodNotAllowed\<close>.
\<close>

definition url_map :: "(py_str \<times> endpoint) list" where
  "url_map =
     [(''/metrics'', Prometheus_metrics), (''/'', Hello_world), (''/health'', Health_check),
      (''/info'', Get_info), (''/calculate'', Calculate)]"

definition rule_methods :: "py_str list" where
  "rule_methods = [''GET'', ''HEAD'', ''OPTIONS'']"

definition match_request :: "request \<Rightarrow> py_exc + endpoint" where
  "match_request rq =
     (case map_of url_map (path rq) of
        None \<Rightarrow> Inl NotFound
      | Some ep \<Rightarrow> if request_method rq \<in> set rule_methods then Inr ep else Inl MethodNotAllowed)"

text \<open>
  The request context: the request and the outcome of URL matching, which Flask stores
  as \<^verbatim>\<open>request.url_rule\<close> or \<^verbatim>\<open>request.routing_exception\<close>;
  \<^verbatim>\<open>request.endpoint\<close> is the rule's endpoint name, \<^verbatim>\<open>None\<close> without a rule.
\<close>

record req_ctx =
  ctx_request :: request
  url_rule :: "py_exc + endpoint"

definition request_context :: "request \<Rightarrow> req_ctx" where
  "request_context rq = \<lparr>ctx_request = rq, url_rule = match_request rq\<rparr>"

definition request_endpoint :: "req_ctx \<Rightarrow> py_str option" where
  "request_endpoint ctx = (case url_rule ctx of Inr ep \<Rightarrow> Some (endpoint_name ep) | Inl _ \<Rightarrow> None)"

subsection \<open>The views\<close>

text \<open>
  \<^verbatim>\<open>hello_world\<close>: \<^verbatim>\<open>counter += 1\<close>, then the greeting, which reads
  \<^verbatim>\<open>ENVIRONMENT\<close> and the incremented counter.
\<close>

definition hello_world :: "app_state \<Rightarrow> (py_exc + response) \<times> app_state" where
  "hello_world s =
     (let s1 = s\<lparr>counter := counter s + 1\<rparr> in
      (jsonify (JObj
         [(''message'', JStr ''Hello from DevOps Lab!''), (''version'', JStr ''1.0.0''),
          (''environment'', JStr (os_environ_get ''ENVIRONMENT'' ''development'' s1)),
          (''visits'', JInt (counter s1))]), s1))"

definition health_check :: "app_state \<Rightarrow> (py_exc + response) \<times> app_state" where
  "health_check s = (jsonify (JObj [(''status'', JStr ''healthy''), (''service'', JStr ''flask-app'')]), s)"

definition get_info :: "app_state \<Rightarrow> (py_exc + response) \<times> app_state" where
  "get_info s =
     (jsonify (JObj [(''app_name'', JStr ''DevOps Lab App''), (''python_version'', JStr ''3.11''),
                     (''framework'', JStr ''Flask'')]), s)"

text \<open>
  \<^verbatim>\<open>int(request.args.get(k, d))\<close>: the first value of the query argument \<open>k\<close>
  through \<^verbatim>\<open>int()\<close>, or the integer default \<open>d\<close> (\<^verbatim>\<open>int(5) == 5\<close>).
\<close>

definition arg_int :: "(py_str \<times> py_str) list \<Rightarrow> py_str \<Rightarrow> int \<Rightarrow> py_exc + int" where
  "arg_int a k d = (case map_of a k of None \<Rightarrow> Inr d | Some v \<Rightarrow> py_int_of_str v)"

definition observe_calc_time :: "real \<Rightarrow> app_state \<Rightarrow> app_state" where
  "observe_calc_time v s = s\<lparr>reg := (reg s)\<lparr>calc_time := hist_observe v (calc_time (reg s))\<rparr>\<rparr>"

text \<open>
  \<^verbatim>\<open>calculate\<close>: read the start time, parse \<^verbatim>\<open>x\<close> then \<^verbatim>\<open>y\<close> (a parse error
  leaves the view before the sleep), compute \<^verbatim>\<open>badFunction\<close>, sleep
  \<^verbatim>\<open>random.uniform(1, 3)\<close>, observe the elapsed time in \<^verbatim>\<open>calc_time\<close>, then
  \<^verbatim>\<open>jsonify\<close>, which may still raise.
\<close>

definition calculate :: "request \<Rightarrow> app_state \<Rightarrow> (py_exc + response) \<times> app_state" where
  "calculate rq s =
     (let start = time_time s in
      case arg_int (args rq) ''x'' 5 of
        Inl e \<Rightarrow> (Inl e, s)
      | Inr x \<Rightarrow>
          (case arg_int (args rq) ''y'' 3 of
             Inl e \<Rightarrow> (Inl e, s)
           | Inr y \<Rightarrow>
               (let result = badFunction x y;
                    (u, s1) = random_uniform 1 3 s;
                    s2 = time_sleep u s1;
                    s3 = observe_calc_time (time_time s2 - start) s2
                in (jsonify (JObj [(''result'', JInt result)]), s3))))"

text \<open>
  The exporter's \<^verbatim>\<open>/metrics\<close> view renders the registry as it is when the view runs;
  the body is that registry.
\<close>

definition prometheus_metrics :: "app_state \<Rightarrow> (py_exc + response) \<times> app_state" where
  "prometheus_metrics s = (Inr \<lparr>status = 200, body = Exposition (reg s)\<rparr>, s)"

fun view_function :: "endpoint \<Rightarrow> request \<Rightarrow> app_state \<Rightarrow> (py_exc + response) \<times> app_state" where
  "view_function Hello_world rq s = hello_world s"
| "view_function Health_check rq s = health_check s"
| "view_function Get_info rq s = get_info s"
| "view_function Calculate rq s = calculate rq s"
| "view_function Prometheus_metrics rq s = prometheus_metrics s"

subsection \<open>Dispatch, the error handler and the hooks\<close>

text \<open>
  \<^verbatim>\<open>Flask.dispatch_request\<close>: re-raise the routing exception; answer
  \<^verbatim>\<open>OPTIONS\<close> with the automatic response (the view does not run); else call the view.
\<close>

definition default_options_response :: response where
  "default_options_response = \<lparr>status = 200, body = No_body\<rparr>"

definition dispatch_request :: "req_ctx \<Rightarrow> app_state \<Rightarrow> (py_exc + response) \<times> app_state" where
  "dispatch_request ctx s =
     (case url_rule ctx of
        Inl e \<Rightarrow> (Inl e, s)
      | Inr ep \<Rightarrow>
          if request_method (ctx_request ctx) = ''OPTIONS'' then (Inr default_options_response, s)
          else view_function ep (ctx_request ctx) s)"

text \<open>\<^verbatim>\<open>str(e)\<close>; for a Werkzeug HTTP exception \<^verbatim>\<open>"{code} {name}: {description}"\<close>.\<close>

fun exc_str :: "py_exc \<Rightarrow> py_str" where
  "exc_str (ValueError m) = m"
| "exc_str NotFound = ''404 Not Found: The requested URL was not found on the server. If you entered the URL manually please check your spelling and try again.''"
| "exc_str MethodNotAllowed = ''405 Method Not Allowed: The method is not allowed for the requested URL.''"

text \<open>
  \<^verbatim>\<open>handle_exception\<close>: count the error and answer 500 with the exception's text.
  Werkzeug's HTTP exceptions reach it too, since Flask looks handlers up along the
  exception's class hierarchy, which ends in \<^verbatim>\<open>Exception\<close>.
\<close>

definition handle_exception :: "py_exc \<Rightarrow> app_state \<Rightarrow> response \<times> app_state" where
  "handle_exception e s =
     (\<lparr>status = 500, body = Json (JObj [(''error'', JStr (exc_str e))])\<rparr>,
      s\<lparr>reg := (reg s)\<lparr>error_counter := counter_inc (error_counter (reg s))\<rparr>\<rparr>)"

definition start_timer :: "app_state \<Rightarrow> seconds \<times> app_state" where
  "start_timer s = (time_time s, s\<lparr>reg := (reg s)\<lparr>visit_counter := counter_inc (visit_counter (reg s))\<rparr>\<rparr>)"

text \<open>\<^verbatim>\<open>request.endpoint if request.endpoint else request.path\<close>.\<close>

definition endpoint_label :: "req_ctx \<Rightarrow> py_str" where
  "endpoint_label ctx =
     (case request_endpoint ctx of
        Some n \<Rightarrow> if n \<noteq> [] then n else path (ctx_request ctx)
      | None \<Rightarrow> path (ctx_request ctx))"

definition record_latency :: "req_ctx \<Rightarrow> seconds \<Rightarrow> response \<Rightarrow> app_state \<Rightarrow> response \<times> app_state" where
  "record_latency ctx start resp s =
     (let (u, s1) = random_uniform 1 3 s;
          s2 = time_sleep u s1;
          latency = time_time s2 - start
      in (resp, s2\<lparr>reg := (reg s2)\<lparr>request_latency :=
                   labelled_observe (endpoint_label ctx) latency (time_time s2) (request_latency (reg s2))\<rparr>\<rparr>))"

text \<open>
  \<^verbatim>\<open>Flask.full_dispatch_request\<close>: the \<^verbatim>\<open>try\<close> around the dispatch turns any
  exception into the handler's response (\<open>try_dispatch\<close>); the before-request hook runs
  first, and \<^verbatim>\<open>finalize_request\<close> runs the after-request hook on whatever response came
  out. \<open>wsgi_app\<close> first builds the request context, which matches the URL.
\<close>

definition try_dispatch :: "req_ctx \<Rightarrow> app_state \<Rightarrow> response \<times> app_state" where
  "try_dispatch ctx s =
     (case dispatch_request ctx s of
        (Inr r, s') \<Rightarrow> (r, s')
      | (Inl e, s') \<Rightarrow> handle_exception e s')"

definition full_dispatch_request :: "req_ctx \<Rightarrow> app_state \<Rightarrow> response \<times> app_state" where
  "full_dispatch_request ctx s =
     (let (start, s1) = start_timer s;
          (resp, s2) = try_dispatch ctx s1
      in record_latency ctx start resp s2)"

definition wsgi_app :: "request \<Rightarrow> app_state \<Rightarrow> response \<times> app_state" where
  "wsgi_app rq s = full_dispatch_request (request_context rq) s"

subsection \<open>Predicates on states and responses\<close>

text \<open>
  \<^verbatim>\<open>random.random()\<close> returns values in \<open>[0, 1)\<close>; \<open>rnd_ok\<close> says the modelled
  output sequence does.
\<close>

definition rnd_ok :: "app_state \<Rightarrow> bool" where
  "rnd_ok s \<longleftrightarrow> (\<forall>n. 0 \<le> rnd s n \<and> rnd s n < 1)"

text \<open>The \<^verbatim>\<open>visits\<close> field of a JSON response, if it has one.\<close>

definition visits_of :: "response \<Rightarrow> int option" where
  "visits_of r =
     (case body r of
        Json (JObj fs) \<Rightarrow> (case map_of fs ''visits'' of Some (JInt v) \<Rightarrow> Some v | _ \<Rightarrow> None)
      | _ \<Rightarrow> None)"

subsection \<open>Effects of the stages\<close>

lemmas view_defs = hello_world_def health_check_def get_info_def calculate_def prometheus_metrics_def
  observe_calc_time_def random_uniform_def time_sleep_def time_time_def

lemmas pipeline_defs = wsgi_app_def full_dispatch_request_def try_dispatch_def dispatch_request_def
  record_latency_def random_uniform_def time_sleep_def time_time_def start_timer_def handle_exception_def

lemma start_timer_eq [state_simps]:
  "start_timer s = (clock s, s\<lparr>reg := (reg s)\<lparr>visit_counter := counter_inc (visit_counter (reg s))\<rparr>\<rparr>)"
  by (simp add: start_timer_def time_time_def)

lemma view_function_frame:
  assumes "view_function ep rq s = (v, s')"
  shows "request_latency (reg s') = request_latency (reg s) \<and> visit_counter (reg s') = visit_counter (reg s) \<and>
         error_counter (reg s') = error_counter (reg s) \<and> rnd s' = rnd s \<and> environ s' = environ s"
  using assms by (cases ep) (auto simp: view_defs Let_def split: sum.splits)

lemma view_function_clock:
  assumes "rnd_ok s" and "view_function ep rq s = (v, s')"
  shows "clock s \<le> clock s'"
proof (cases ep)
  case Calculate
  have "0 \<le> rnd s n" for n using assms by (simp add: rnd_ok_def)
  then show ?thesis using Calculate assms(2) by (auto simp: view_defs Let_def split: sum.splits)
qed (use assms(2) in \<open>auto simp: view_defs Let_def\<close>)

lemma try_dispatch_frame:
  assumes "snd (try_dispatch ctx s) = s'"
  shows "request_latency (reg s') = request_latency (reg s) \<and> visit_counter (reg s') = visit_counter (reg s) \<and>
         rnd s' = rnd s \<and> environ s' = environ s"
  using assms
  by (auto simp: try_dispatch_def dispatch_request_def handle_exception_def
      dest: view_function_frame split: sum.splits if_splits prod.splits)

lemma try_dispatch_clock:
  assumes "rnd_ok s"
  shows "clock s \<le> clock (snd (try_dispatch ctx s))"
  using assms
  by (auto simp: try_dispatch_def dispatch_request_def handle_exception_def
      dest: view_function_clock split: sum.splits if_splits prod.splits)

lemma rnd_ok_cong: "rnd s' = rnd s \<Longrightarrow> rnd_ok s' = rnd_ok s"
  by (simp add: rnd_ok_def)

lemma record_latency_effect:
  "record_latency ctx start resp s = (r, s') \<Longrightarrow>
   r = resp \<and> request_latency (reg s') =
     labelled_observe (endpoint_label ctx) (clock s' - start) (clock s') (request_latency (reg s)) \<and>
   clock s' = clock s + (1 + 2 * rnd s (rnd_pos s)) \<and> rnd s' = rnd s \<and> counter s' = counter s \<and>
   visit_counter (reg s') = visit_counter (reg s) \<and> error_counter (reg s') = error_counter (reg s) \<and>
   calc_time (reg s') = calc_time (reg s) \<and> environ s' = environ s"
  by (auto simp: record_latency_def random_uniform_def time_sleep_def time_time_def Let_def)

lemma wsgi_app_latency:
  assumes "wsgi_app rq s = (r, s')"
  shows "\<exists>lat. request_latency (reg s') =
           labelled_observe (endpoint_label (request_context rq)) lat (clock s') (request_latency (reg s)) \<and>
           (rnd_ok s \<longrightarrow> 1 \<le> lat)"
proof -
  let ?ctx = "request_context rq"
  let ?s1 = "snd (start_timer s)"
  obtain r2 s2 where td: "try_dispatch ?ctx ?s1 = (r2, s2)" by fastforce
  with assms have rl: "record_latency ?ctx (clock s) r2 s2 = (r, s')"
    by (simp add: wsgi_app_def full_dispatch_request_def start_timer_eq)
  have fr: "request_latency (reg s2) = request_latency (reg s)" "rnd s2 = rnd s"
    using try_dispatch_frame [of ?ctx ?s1 s2] td by (simp_all add: start_timer_eq)
  note eff = record_latency_effect [OF rl]
  have "rnd_ok s \<Longrightarrow> 1 \<le> clock s' - clock s"
  proof -
    assume ok: "rnd_ok s"
    then have "clock ?s1 \<le> clock s2"
      using try_dispatch_clock [of ?s1 ?ctx] td by (simp add: start_timer_eq rnd_ok_def)
    moreover have "0 \<le> rnd s2 (rnd_pos s2)" using ok fr by (simp add: rnd_ok_def)
    ultimately show ?thesis using eff by (simp add: start_timer_eq)
  qed
  with eff fr show ?thesis by auto
qed


lemma calculate_route:
  "request_method rq \<in> {''GET'', ''HEAD''} \<Longrightarrow> path rq = ''/calculate'' \<Longrightarrow>
   match_request rq = Inr Calculate \<and> request_method rq \<noteq> ''OPTIONS''"
  by (auto simp: match_request_def url_map_def rule_methods_def)

lemma get_route:
  "request_method rq \<in> {''GET'', ''HEAD''} \<Longrightarrow> map_of url_map (path rq) = Some ep \<Longrightarrow>
   match_request rq = Inr ep \<and> request_method rq \<noteq> ''OPTIONS''"
  by (auto simp: match_request_def rule_methods_def)

lemma endpoint_label_eq:
  "endpoint_label (request_context rq) =
   (case match_request rq of Inr ep \<Rightarrow> endpoint_name ep | Inl _ \<Rightarrow> path rq)"
proof (cases "match_request rq")
  case (Inr ep)
  then show ?thesis
    by (cases ep) (simp_all add: endpoint_label_def request_endpoint_def request_context_def)
qed (simp add: endpoint_label_def request_endpoint_def request_context_def)

lemma view_function_calc_time:
  "view_function ep rq s = (v, s') \<Longrightarrow>
   calc_time (reg s') = calc_time (reg s) \<or>
   calc_time (reg s') = hist_observe (1 + 2 * rnd s (rnd_pos s)) (calc_time (reg s))"
  by (cases ep) (auto simp: view_defs Let_def split: sum.splits)

lemma try_dispatch_registry:
  "try_dispatch ctx s = (r, s') \<Longrightarrow>
   (error_counter (reg s') = error_counter (reg s) \<or>
    error_counter (reg s') = counter_inc (error_counter (reg s))) \<and>
   (calc_time (reg s') = calc_time (reg s) \<or>
    calc_time (reg s') = hist_observe (1 + 2 * rnd s (rnd_pos s)) (calc_time (reg s)))"
  by (auto simp: try_dispatch_def dispatch_request_def handle_exception_def
      dest: view_function_frame view_function_calc_time split: sum.splits if_splits prod.splits)

lemma wsgi_app_registry:
  assumes "wsgi_app rq s = (r, s')"
  shows "visit_counter (reg s') = counter_inc (visit_counter (reg s)) \<and>
    (error_counter (reg s') = error_counter (reg s) \<or>
     error_counter (reg s') = counter_inc (error_counter (reg s))) \<and>
    (calc_time (reg s') = calc_time (reg s) \<or>
     calc_time (reg s') = hist_observe (1 + 2 * rnd s (rnd_pos s)) (calc_time (reg s))) \<and>
    rnd s' = rnd s"
proof -
  let ?ctx = "request_context rq"
  obtain r2 s2 where td: "try_dispatch ?ctx (snd (start_timer s)) = (r2, s2)" by fastforce
  with assms have rl: "record_latency ?ctx (clock s) r2 s2 = (r, s')"
    by (simp add: wsgi_app_def full_dispatch_request_def start_timer_eq)
  from try_dispatch_registry [OF td] try_dispatch_frame [of ?ctx "snd (start_timer s)" s2] td
    record_latency_effect [OF rl]
  show ?thesis by (simp add: start_timer_eq)
qed

subsection \<open>Error responses and the error counter\<close>

lemma view_function_status:
  "view_function ep rq s = (Inr r, s') \<Longrightarrow> status r = 200"
  by (cases ep) (auto simp: view_defs jsonify_def Let_def split: sum.splits option.splits)

lemma try_dispatch_errors:
  assumes "try_dispatch ctx s = (r, s')"
  shows "error_counter (reg s') =
         (if status r = 500 then counter_inc (error_counter (reg s)) else error_counter (reg s))"
  using assms
  by (auto simp: try_dispatch_def dispatch_request_def handle_exception_def default_options_response_def
      dest: view_function_frame view_function_status split: sum.splits if_splits prod.splits)

lemma wsgi_app_errors:
  "c_value (error_counter (reg (snd (wsgi_app rq s)))) =
   c_value (error_counter (reg s)) + (if status (fst (wsgi_app rq s)) = 500 then 1 else 0)"
proof -
  let ?ctx = "request_context rq"
  obtain r2 s2 where td: "try_dispatch ?ctx (snd (start_timer s)) = (r2, s2)" by fastforce
  obtain r s' where w: "wsgi_app rq s = (r, s')" by fastforce
  with td have rl: "record_latency ?ctx (clock s) r2 s2 = (r, s')"
    by (simp add: wsgi_app_def full_dispatch_request_def start_timer_eq)
  from try_dispatch_errors [OF td] record_latency_effect [OF rl] w
  show ?thesis by (simp add: start_timer_eq counter_inc_def)
qed

subsection \<open>The global counter and the visits field\<close>

lemma view_function_counter:
  "view_function ep rq s = (v, s') \<Longrightarrow> counter s' = counter s + (if ep = Hello_world then 1 else 0)"
  by (cases ep) (auto simp: view_defs Let_def split: sum.splits)

lemma try_dispatch_counter:
  "try_dispatch ctx s = (r, s') \<Longrightarrow>
   counter s' = counter s + (if url_rule ctx = Inr Hello_world \<and> request_method (ctx_request ctx) \<noteq> ''OPTIONS'' then 1 else 0)"
  by (auto simp: try_dispatch_def dispatch_request_def handle_exception_def
      dest: view_function_counter split: sum.splits if_splits prod.splits)

lemma view_function_visits:
  assumes "view_function ep rq s = (Inr r, s')" and "visits_of r = Some v"
  shows "ep = Hello_world \<and> v = counter s'"
  using assms
  by (cases ep) (auto simp: view_defs visits_of_def jsonify_def Let_def split: sum.splits option.splits)

lemma try_dispatch_visits:
  assumes "try_dispatch ctx s = (r, s')" and "visits_of r = Some v"
  shows "url_rule ctx = Inr Hello_world \<and> request_method (ctx_request ctx) \<noteq> ''OPTIONS'' \<and> v = counter s'"
  using assms
  by (auto simp: try_dispatch_def dispatch_request_def handle_exception_def visits_of_def
      default_options_response_def dest: view_function_visits split: sum.splits if_splits prod.splits)

lemma wsgi_app_counter:
  "wsgi_app rq s = (r, s') \<Longrightarrow>
   counter s' = counter s + (if match_request rq = Inr Hello_world \<and> request_method rq \<noteq> ''OPTIONS'' then 1 else 0)"
  by (auto simp: wsgi_app_def full_dispatch_request_def request_context_def start_timer_eq
      dest!: try_dispatch_counter record_latency_effect split: prod.splits)

lemma wsgi_app_visits:
  assumes "wsgi_app rq s = (r, s')" and "visits_of r = Some v"
  shows "v = counter s' \<and> counter s' = counter s + 1"
proof -
  let ?ctx = "request_context rq"
  obtain r2 s2 where td: "try_dispatch ?ctx (snd (start_timer s)) = (r2, s2)" by fastforce
  with assms(1) have rl: "record_latency ?ctx (clock s) r2 s2 = (r, s')"
    by (simp add: wsgi_app_def full_dispatch_request_def start_timer_eq)
  note eff = record_latency_effect [OF rl]
  with assms(2) have "visits_of r2 = Some v" by simp
  from try_dispatch_visits [OF td this] have
    hw: "url_rule ?ctx = Inr Hello_world" "request_method (ctx_request ?ctx) \<noteq> ''OPTIONS''" and v: "v = counter s2"
    by auto
  from try_dispatch_counter [OF td] hw have "counter s2 = counter s + 1" by (simp add: start_timer_eq)
  with eff v show ?thesis by simp
qed

subsection \<open>Properties of request handling\<close>

text \<open>
  C1. \<^verbatim>\<open>/calculate\<close> with arguments that parse: the response is 200 with
  \<^verbatim>\<open>{"result": badFunction(x, y)}\<close> when the result fits the digit limit, the
  calculation histogram observes exactly the injected sleep, and no error is counted.
\<close>

theorem calculate_response:
  assumes "request_method rq \<in> {''GET'', ''HEAD''}" and "path rq = ''/calculate''"
    and "arg_int (args rq) ''x'' 5 = Inr x" and "arg_int (args rq) ''y'' 3 = Inr y"
    and "ndigits (badFunction x y) \<le> int_max_str_digits"
  shows "fst (wsgi_app rq s) = \<lparr>status = 200, body = Json (JObj [(''result'', JInt (badFunction x y))])\<rparr> \<and>
         calc_time (reg (snd (wsgi_app rq s))) = hist_observe (1 + 2 * rnd s (rnd_pos s)) (calc_time (reg s)) \<and>
         error_counter (reg (snd (wsgi_app rq s))) = error_counter (reg s)"
  using assms calculate_route [OF assms(1,2)]
  by (simp add: pipeline_defs request_context_def calculate_def observe_calc_time_def jsonify_def
      int_repr_ok Let_def)

text \<open>
  C3. A query argument \<^verbatim>\<open>x\<close> (or, after a good \<^verbatim>\<open>x\<close>, \<^verbatim>\<open>y\<close>) that
  \<^verbatim>\<open>int()\<close> refuses is not replaced by the default: the request is answered 500 with
  the \<^verbatim>\<open>ValueError\<close> text, the error counter goes up by one, and the calculation
  histogram is untouched.
\<close>

theorem calculate_malformed_500:
  assumes "request_method rq \<in> {''GET'', ''HEAD''}" and "path rq = ''/calculate''"
    and "py_int_of_str v = Inl e"
    and "map_of (args rq) ''x'' = Some v \<or>
         (map_of (args rq) ''y'' = Some v \<and>
          (case map_of (args rq) ''x'' of None \<Rightarrow> True | Some u \<Rightarrow> \<not> isl (py_int_of_str u)))"
  shows "fst (wsgi_app rq s) = \<lparr>status = 500, body = Json (JObj [(''error'', JStr (exc_str e))])\<rparr> \<and>
         c_value (error_counter (reg (snd (wsgi_app rq s)))) = Suc (c_value (error_counter (reg s))) \<and>
         calc_time (reg (snd (wsgi_app rq s))) = calc_time (reg s)"
proof -
  have "arg_int (args rq) ''x'' 5 = Inl e \<or>
        (\<exists>x. arg_int (args rq) ''x'' 5 = Inr x \<and> arg_int (args rq) ''y'' 3 = Inl e)"
  proof (cases "map_of (args rq) ''x''")
    case (Some u)
    with assms(3,4) show ?thesis
      by (cases "py_int_of_str u") (auto simp: arg_int_def)
  next
    case None
    with assms(3,4) show ?thesis by (simp add: arg_int_def)
  qed
  then show ?thesis
    using assms(1,2) calculate_route [OF assms(1,2)]
    by (auto simp: pipeline_defs request_context_def calculate_def counter_inc_def Let_def)
qed

text \<open>
  C12. Arguments that parse but whose \<^verbatim>\<open>badFunction\<close> result has more than 4300
  digits make \<^verbatim>\<open>jsonify\<close> raise: the answer is 500 with the digit-limit text, the
  error is counted, and the calculation was still observed.
\<close>

theorem calculate_huge_result_500:
  assumes "request_method rq \<in> {''GET'', ''HEAD''}" and "path rq = ''/calculate''"
    and "arg_int (args rq) ''x'' 5 = Inr x" and "arg_int (args rq) ''y'' 3 = Inr y"
    and "int_max_str_digits < ndigits (badFunction x y)"
  shows "fst (wsgi_app rq s) = \<lparr>status = 500, body = Json (JObj [(''error'', JStr (exc_str limit_to_str))])\<rparr> \<and>
         calc_time (reg (snd (wsgi_app rq s))) = hist_observe (1 + 2 * rnd s (rnd_pos s)) (calc_time (reg s)) \<and>
         c_value (error_counter (reg (snd (wsgi_app rq s)))) = Suc (c_value (error_counter (reg s)))"
  using assms calculate_route [OF assms(1,2)]
  by (simp add: pipeline_defs request_context_def calculate_def observe_calc_time_def jsonify_def
      int_repr_limit counter_inc_def Let_def)

text \<open>
  C5. \<^verbatim>\<open>GET /health\<close> answers 200 \<^verbatim>\<open>{"status": "healthy", "service":
  "flask-app"}\<close> in every state and for every query string.
\<close>

theorem health_always_healthy:
  "fst (wsgi_app \<lparr>request_method = ''GET'', path = ''/health'', args = a\<rparr> s) =
   \<lparr>status = 200, body = Json (JObj [(''status'', JStr ''healthy''), (''service'', JStr ''flask-app'')])\<rparr>"
  by (simp add: pipeline_defs request_context_def match_request_def url_map_def rule_methods_def
      health_check_def jsonify_def Let_def)

text \<open>
  C21. \<^verbatim>\<open>GET /\<close> increments the global \<^verbatim>\<open>counter\<close> and answers 200 with the
  greeting, version \<^verbatim>\<open>1.0.0\<close>, the \<^verbatim>\<open>ENVIRONMENT\<close> variable (default
  \<^verbatim>\<open>development\<close>) and \<^verbatim>\<open>visits\<close> equal to the incremented counter, as long as
  that number has at most 4300 digits (beyond, \<^verbatim>\<open>jsonify\<close> would raise).
\<close>

theorem hello_world_response:
  assumes "request_method rq \<in> {''GET'', ''HEAD''}" and "path rq = ''/''"
    and "ndigits (counter s + 1) \<le> int_max_str_digits"
  shows "fst (wsgi_app rq s) =
           \<lparr>status = 200, body = Json (JObj
              [(''message'', JStr ''Hello from DevOps Lab!''), (''version'', JStr ''1.0.0''),
               (''environment'', JStr (case environ s ''ENVIRONMENT'' of Some v \<Rightarrow> v | None \<Rightarrow> ''development'')),
               (''visits'', JInt (counter s + 1))])\<rparr> \<and>
         counter (snd (wsgi_app rq s)) = counter s + 1"
proof -
  have "match_request rq = Inr Hello_world \<and> request_method rq \<noteq> ''OPTIONS''"
    using assms(1,2) by (intro get_route) (simp_all add: url_map_def)
  with assms(3) show ?thesis
    by (simp add: pipeline_defs request_context_def hello_world_def os_environ_get_def jsonify_def
        int_repr_ok Let_def)
qed

text \<open>
  C28. \<^verbatim>\<open>GET /info\<close> answers 200 with the fixed application information in every
  state and for every query string; it leaves the global counter, the error counter and
  the calculation histogram as they were.
\<close>

theorem info_constant:
  "fst (wsgi_app \<lparr>request_method = ''GET'', path = ''/info'', args = a\<rparr> s) =
     \<lparr>status = 200, body = Json (JObj [(''app_name'', JStr ''DevOps Lab App''),
        (''python_version'', JStr ''3.11''), (''framework'', JStr ''Flask'')])\<rparr> \<and>
   counter (snd (wsgi_app \<lparr>request_method = ''GET'', path = ''/info'', args = a\<rparr> s)) = counter s \<and>
   error_counter (reg (snd (wsgi_app \<lparr>request_method = ''GET'', path = ''/info'', args = a\<rparr> s))) =
     error_counter (reg s) \<and>
   calc_time (reg (snd (wsgi_app \<lparr>request_method = ''GET'', path = ''/info'', args = a\<rparr> s))) =
     calc_time (reg s)"
  by (simp add: pipeline_defs request_context_def match_request_def url_map_def rule_methods_def
      get_info_def jsonify_def Let_def)

text \<open>
  C11. A request that no URL rule accepts (unknown path: 404, or a method the rule does
  not allow: 405) reaches the catch-all error handler: it is answered 500 with the HTTP
  exception's text, counted as an error, and its latency is keyed by the raw path.
\<close>

theorem routing_error_500:
  assumes "match_request rq = Inl e"
  shows "fst (wsgi_app rq s) = \<lparr>status = 500, body = Json (JObj [(''error'', JStr (exc_str e))])\<rparr> \<and>
         c_value (error_counter (reg (snd (wsgi_app rq s)))) = Suc (c_value (error_counter (reg s))) \<and>
         endpoint_label (request_context rq) = path rq"
  using assms
  by (simp add: pipeline_defs request_context_def endpoint_label_def request_endpoint_def counter_inc_def Let_def)


text \<open>
  C24. An \<^verbatim>\<open>OPTIONS\<close> request to any route gets Flask's automatic 200 answer without
  running the view: the global counter and the calculation histogram are untouched and no
  error is counted, but the request is still counted as a visit.
\<close>

theorem options_skips_view:
  assumes "match_request rq = Inr ep" and "request_method rq = ''OPTIONS''"
  shows "fst (wsgi_app rq s) = default_options_response \<and>
         counter (snd (wsgi_app rq s)) = counter s \<and>
         calc_time (reg (snd (wsgi_app rq s))) = calc_time (reg s) \<and>
         error_counter (reg (snd (wsgi_app rq s))) = error_counter (reg s) \<and>
         visit_counter (reg (snd (wsgi_app rq s))) = counter_inc (visit_counter (reg s))"
  using assms by (simp add: pipeline_defs request_context_def Let_def)

text \<open>
  C4. Every request, answered normally or through the error handler, adds exactly one
  observation to \<^verbatim>\<open>request_latency_seconds\<close>, under its endpoint name, or under the
  raw path when no rule matched; no other label's count changes.
\<close>

theorem wsgi_app_one_latency_observation:
  assumes "labelled_wf (request_latency (reg s))"
  shows "labelled_count (request_latency (reg (snd (wsgi_app rq s)))) k =
         labelled_count (request_latency (reg s)) k +
         (if k = (case match_request rq of Inr ep \<Rightarrow> endpoint_name ep | Inl _ \<Rightarrow> path rq) then 1 else 0)"
proof -
  obtain r s' where w: "wsgi_app rq s = (r, s')" by fastforce
  from wsgi_app_latency [OF w] obtain lat where
    "request_latency (reg s') = labelled_observe (endpoint_label (request_context rq)) lat (clock s') (request_latency (reg s))"
    by blast
  moreover note endpoint_label_eq [of rq]
  ultimately show ?thesis using w assms by (simp add: labelled_count_observe)
qed


subsection \<open>Witnesses\<close>

theorem calculate_response_witness:
  "fst (wsgi_app \<lparr>request_method = ''GET'', path = ''/calculate'', args = [(''x'', ''12''), (''y'', ''4'')]\<rparr>
        (init_state (\<lambda>_. 1/2) Map.empty 0)) =
     \<lparr>status = 200, body = Json (JObj [(''result'', JInt (badFunction 12 4))])\<rparr> \<and>
   calc_time (reg (snd (wsgi_app \<lparr>request_method = ''GET'', path = ''/calculate'', args = [(''x'', ''12''), (''y'', ''4'')]\<rparr>
        (init_state (\<lambda>_. 1/2) Map.empty 0)))) = hist_observe 2 (hist_new default_buckets 0)"
proof -
  have x: "arg_int [(''x'', ''12''), (''y'', ''4'')] ''x'' 5 = Inr 12" by code_simp
  have y: "arg_int [(''x'', ''12''), (''y'', ''4'')] ''y'' 3 = Inr 4" by code_simp
  have d: "ndigits (badFunction 12 4) \<le> int_max_str_digits"
    by (simp add: badFunction_def ndigits_def nat_digits.simps int_max_str_digits_def)
  show ?thesis
    using calculate_response [where rq = "\<lparr>request_method = ''GET'', path = ''/calculate'', args = [(''x'', ''12''), (''y'', ''4'')]\<rparr>"
      and s = "init_state (\<lambda>_. 1/2) Map.empty 0" and x = 12 and y = 4] x y d
    by (simp add: init_state_def init_registry_def)
qed

theorem calculate_malformed_500_witness:
  "fst (wsgi_app \<lparr>request_method = ''GET'', path = ''/calculate'', args = [(''x'', ''abc'')]\<rparr>
        (init_state (\<lambda>_. 1/2) Map.empty 0)) =
     \<lparr>status = 500, body = Json (JObj [(''error'', JStr (exc_str (invalid_literal ''abc'')))])\<rparr>"
proof -
  have x: "py_int_of_str ''abc'' = Inl (invalid_literal ''abc'')"
    by code_simp
  from calculate_malformed_500 [where rq = "\<lparr>request_method = ''GET'', path = ''/calculate'', args = [(''x'', ''abc'')]\<rparr>"
      and s = "init_state (\<lambda>_. 1/2) Map.empty 0" and v = "''abc''"] x
  show ?thesis by simp
qed

theorem calculate_huge_result_500_witness:
  "fst (wsgi_app \<lparr>request_method = ''GET'', path = ''/calculate'',
                  args = [(''x'', py_str_int (10 ^ 2200)), (''y'', py_str_int (10 ^ 2200))]\<rparr>
        (init_state (\<lambda>_. 1/2) Map.empty 0)) =
     \<lparr>status = 500, body = Json (JObj [(''error'', JStr (exc_str limit_to_str))])\<rparr>"
proof -
  let ?n = "(10::int) ^ 2200"
  let ?a = "[(''x'', py_str_int ?n), (''y'', py_str_int ?n)]"
  have p: "py_int_of_str (py_str_int ?n) = Inr ?n"
    by (rule py_int_of_str_str_int) (simp only: ndigits_pow10 int_max_str_digits_def)
  have x: "arg_int ?a ''x'' 5 = Inr ?n" and y: "arg_int ?a ''y'' 3 = Inr ?n"
    using p by (simp_all add: arg_int_def del: power_numeral)
  have b: "badFunction ?n ?n = 10 ^ 4400"
    using ten_less_pow_ten [of 2200] by (simp add: badFunction_def del: power_numeral flip: power_add)
  have d: "int_max_str_digits < ndigits (badFunction ?n ?n)"
    by (simp only: b ndigits_pow10 int_max_str_digits_def)
  show ?thesis
    using calculate_huge_result_500 [where rq = "\<lparr>request_method = ''GET'', path = ''/calculate'', args = ?a\<rparr>"
      and s = "init_state (\<lambda>_. 1/2) Map.empty 0" and x = ?n and y = ?n] x y d
    by (simp del: power_numeral)
qed

theorem hello_world_response_witness:
  "fst (wsgi_app \<lparr>request_method = ''GET'', path = ''/'', args = []\<rparr>
        (init_state (\<lambda>_. 1/2) [''ENVIRONMENT'' \<mapsto> ''production''] 0)) =
     \<lparr>status = 200, body = Json (JObj
        [(''message'', JStr ''Hello from DevOps Lab!''), (''version'', JStr ''1.0.0''),
         (''environment'', JStr ''production''), (''visits'', JInt 1)])\<rparr>"
proof -
  have d: "ndigits (0 + 1) \<le> int_max_str_digits"
    by (simp add: ndigits_def nat_digits.simps int_max_str_digits_def)
  show ?thesis
    using hello_world_response [where rq = "\<lparr>request_method = ''GET'', path = ''/'', args = []\<rparr>"
      and s = "init_state (\<lambda>_. 1/2) [''ENVIRONMENT'' \<mapsto> ''production''] 0"] d
    by (simp add: init_state_def)
qed


theorem options_skips_view_witness:
  "fst (wsgi_app \<lparr>request_method = ''OPTIONS'', path = ''/calculate'', args = [(''x'', ''abc'')]\<rparr>
        (init_state (\<lambda>_. 1/2) Map.empty 0)) = default_options_response \<and>
   counter (snd (wsgi_app \<lparr>request_method = ''OPTIONS'', path = ''/calculate'', args = [(''x'', ''abc'')]\<rparr>
        (init_state (\<lambda>_. 1/2) Map.empty 0))) = 0"
proof -
  have m: "match_request \<lparr>request_method = ''OPTIONS'', path = ''/calculate'', args = [(''x'', ''abc'')]\<rparr> = Inr Calculate"
    by (simp add: match_request_def url_map_def rule_methods_def)
  show ?thesis
    using options_skips_view [where rq = "\<lparr>request_method = ''OPTIONS'', path = ''/calculate'', args = [(''x'', ''abc'')]\<rparr>"
      and s = "init_state (\<lambda>_. 1/2) Map.empty 0"] m
    by (simp add: init_state_def)
qed

theorem routing_error_500_witness:
  "fst (wsgi_app \<lparr>request_method = ''GET'', path = ''/nope'', args = []\<rparr> (init_state (\<lambda>_. 1/2) Map.empty 0)) =
     \<lparr>status = 500, body = Json (JObj [(''error'', JStr (exc_str NotFound))])\<rparr>"
proof -
  have "match_request \<lparr>request_method = ''GET'', path = ''/nope'', args = []\<rparr> = Inl NotFound"
    by (simp add: match_request_def url_map_def)
  from routing_error_500 [OF this] show ?thesis by simp
qed

theorem wsgi_app_one_latency_observation_witness:
  "labelled_count (request_latency (reg (snd (wsgi_app \<lparr>request_method = ''GET'', path = ''/nope'', args = []\<rparr>
      (init_state (\<lambda>_. 1/2) Map.empty 0))))) ''/nope'' = 1"
proof -
  have "labelled_wf (request_latency (reg (init_state (\<lambda>_. 1/2) Map.empty 0)))"
    by (simp add: init_state_def init_registry_def labelled_wf_def)
  from wsgi_app_one_latency_observation [OF this, of "\<lparr>request_method = ''GET'', path = ''/nope'', args = []\<rparr>" "''/nope''"]
  show ?thesis
    by (simp add: match_request_def url_map_def init_state_def init_registry_def labelled_count_def)
qed

end
