(* ===== verification/Server.thy ===== *)
theory Server
  imports App
begin

text \<open>
  The process around the application: one Python process serving requests one after
  another for its whole lifetime. An event is a request or the passing of wall-clock time
  between requests (any real amount: \<^verbatim>\<open>time.time()\<close> may also be set back).
  \<open>serve\<close> and \<open>run\<close> execute a given sequence of events; \<open>server_step\<close> is
  the same as a relation, and \<open>reachable\<close> the states of a process that imported the
  module with a random source satisfying \<open>rnd_ok\<close>. \<open>app_inv\<close> is the invariant of
  reachable states: the metric objects well formed, the counters related, and every
  observation of both histograms at least 1 second, since each carries at least one
  injected sleep of \<^verbatim>\<open>random.uniform(1, 3)\<close>. This bound needs only that
  \<^verbatim>\<open>time.sleep\<close> sleeps at least as long as asked and that the clock is not set
  back during a request; no upper bound is claimed, since \<^verbatim>\<open>time.sleep\<close> may
  overrun and computation takes time.
\<close>

datatype event = Request request | Idle seconds

definition serve :: "app_state \<Rightarrow> event \<Rightarrow> response option \<times> app_state" where
  "serve s ev =
     (case ev of
        Request rq \<Rightarrow> (let (r, s') = wsgi_app rq s in (Some r, s'))
      | Idle d \<Rightarrow> (None, s\<lparr>clock := clock s + d\<rparr>))"

fun run :: "app_state \<Rightarrow> event list \<Rightarrow> response list \<times> app_state" where
  "run s [] = ([], s)"
| "run s (ev # evs) =
     (let (ro, s1) = serve s ev; (rs, s2) = run s1 evs
      in ((case ro of Some r \<Rightarrow> r # rs | None \<Rightarrow> rs), s2))"

definition visits_seen :: "response list \<Rightarrow> int list" where
  "visits_seen rs = List.map_filter visits_of rs"

inductive server_step :: "app_state \<Rightarrow> app_state \<Rightarrow> bool" where
  request: "server_step s (snd (wsgi_app rq s))"
| idle: "server_step s (s\<lparr>clock := clock s + d\<rparr>)"

inductive reachable :: "app_state \<Rightarrow> bool" where
  init: "rnd_ok (init_state r env t) \<Longrightarrow> reachable (init_state r env t)"
| step: "reachable s \<Longrightarrow> server_step s s' \<Longrightarrow> reachable s'"

inductive_cases server_stepE: "server_step s s'"

text \<open>All observations a histogram represents are at least \<open>m\<close>.\<close>

definition obs_at_least :: "real \<Rightarrow> histogram \<Rightarrow> bool" where
  "obs_at_least m h \<longleftrightarrow> (\<exists>M. hist_abs M h \<and> (\<forall>v\<in>#M. m \<le> v))"

definition app_inv :: "app_state \<Rightarrow> bool" where
  "app_inv s \<longleftrightarrow>
     rnd_ok s \<and> 0 \<le> counter s \<and>
     labelled_wf (request_latency (reg s)) \<and>
     hist_wf (calc_time (reg s)) \<and> h_upper_bounds (calc_time (reg s)) = default_buckets \<and>
     labelled_total (request_latency (reg s)) = c_value (visit_counter (reg s)) \<and>
     c_value (error_counter (reg s)) \<le> c_value (visit_counter (reg s)) \<and>
     hist_count (calc_time (reg s)) \<le> c_value (visit_counter (reg s)) \<and>
     counter s \<le> int (c_value (visit_counter (reg s))) \<and>
     obs_at_least 1 (calc_time (reg s)) \<and>
     (\<forall>p\<in>set (request_latency (reg s)). obs_at_least 1 (snd p))"

subsection \<open>The invariant\<close>

lemma obs_at_least_observe: "obs_at_least m h \<Longrightarrow> m \<le> v \<Longrightarrow> obs_at_least m (hist_observe v h)"
proof -
  assume "obs_at_least m h" and mv: "m \<le> v"
  then obtain M where "hist_abs M h" and "\<forall>w\<in>#M. m \<le> w" by (auto simp: obs_at_least_def)
  then have "hist_abs (add_mset v M) (hist_observe v h) \<and> (\<forall>w\<in>#add_mset v M. m \<le> w)"
    using mv by (simp add: hist_abs_observe)
  then show ?thesis unfolding obs_at_least_def by (rule exI)
qed

lemma app_inv_init: "rnd_ok (init_state r env t) \<Longrightarrow> app_inv (init_state r env t)"
  unfolding app_inv_def
proof (intro conjI)
  show "obs_at_least 1 (calc_time (reg (init_state r env t)))"
    unfolding obs_at_least_def init_state_def init_registry_def
    by (intro exI [of _ "{#}"]) (simp add: hist_abs_new)
  show "hist_wf (calc_time (reg (init_state r env t)))"
    by (simp add: init_state_def init_registry_def hist_wf_new sorted_default_buckets)
qed (simp_all add: init_state_def init_registry_def labelled_wf_def labelled_total_def
       counter_new_def hist_count_def hist_new_def)

lemma app_inv_idle: "app_inv s \<Longrightarrow> app_inv (s\<lparr>clock := clock s + d\<rparr>)"
  by (simp add: app_inv_def rnd_ok_def)

lemma app_inv_request:
  assumes inv: "app_inv s" and w: "wsgi_app rq s = (r, s')"
  shows "app_inv s'"
proof -
  note reg = wsgi_app_registry [OF w]
  from wsgi_app_latency [OF w] obtain lat where
    lat: "request_latency (reg s') =
      labelled_observe (endpoint_label (request_context rq)) lat (clock s') (request_latency (reg s))"
    and lat1: "rnd_ok s \<longrightarrow> 1 \<le> lat" by blast
  have cnt: "counter s \<le> counter s'" "counter s' \<le> counter s + 1"
    using wsgi_app_counter [OF w] by auto
  have ok: "rnd_ok s'" "rnd_ok s" using inv reg by (simp_all add: app_inv_def rnd_ok_def)
  have u: "1 \<le> 1 + 2 * rnd s (rnd_pos s)" using ok by (simp add: rnd_ok_def)
  have calc: "obs_at_least 1 (calc_time (reg s')) \<and> hist_wf (calc_time (reg s')) \<and>
              h_upper_bounds (calc_time (reg s')) = default_buckets \<and>
              hist_count (calc_time (reg s')) \<le> Suc (hist_count (calc_time (reg s)))"
  proof -
    have i: "obs_at_least 1 (calc_time (reg s))" "hist_wf (calc_time (reg s))"
      "h_upper_bounds (calc_time (reg s)) = default_buckets" using inv by (simp_all add: app_inv_def)
    from reg consider (same) "calc_time (reg s') = calc_time (reg s)"
      | (obs) "calc_time (reg s') = hist_observe (1 + 2 * rnd s (rnd_pos s)) (calc_time (reg s))"
      by blast
    then show ?thesis
    proof cases
      case same
      with i show ?thesis by simp
    next
      case obs
      with i u show ?thesis
        by (simp add: obs_at_least_observe hist_wf_observe hist_count_observe)
    qed
  qed
  have lw: "labelled_wf (request_latency (reg s'))"
    "labelled_total (request_latency (reg s')) = Suc (labelled_total (request_latency (reg s)))"
    using inv lat by (simp_all add: app_inv_def labelled_wf_observe labelled_total_observe)
  have lo: "\<forall>p\<in>set (request_latency (reg s')). obs_at_least 1 (snd p)"
    using inv lat lat1 ok labelled_obs_observe [of "request_latency (reg s)" "\<lambda>v. 1 \<le> v" lat]
    by (simp add: app_inv_def obs_at_least_def labelled_wf_def)
  have ec: "c_value (error_counter (reg s')) \<le> Suc (c_value (error_counter (reg s)))"
    using reg by (auto simp: counter_inc_def)
  have vc: "c_value (visit_counter (reg s')) = Suc (c_value (visit_counter (reg s)))"
    using reg by (simp add: counter_inc_def)
  show ?thesis
    unfolding app_inv_def
  proof (intro conjI)
    show "labelled_total (request_latency (reg s')) = c_value (visit_counter (reg s'))"
      using lw(2) vc inv by (simp add: app_inv_def)
    show "c_value (error_counter (reg s')) \<le> c_value (visit_counter (reg s'))"
      using ec vc inv by (simp add: app_inv_def)
    show "hist_count (calc_time (reg s')) \<le> c_value (visit_counter (reg s'))"
      using calc vc inv by (simp add: app_inv_def)
    show "counter s' \<le> int (c_value (visit_counter (reg s')))"
      using cnt vc inv by (simp add: app_inv_def)
    show "0 \<le> counter s'" using cnt inv by (simp add: app_inv_def)
  qed (use ok calc lw lo in simp_all)
qed

lemma server_step_inv: "server_step s s' \<Longrightarrow> app_inv s \<Longrightarrow> app_inv s'"
proof (induction rule: server_step.induct)
  case (request s rq)
  obtain r s' where "wsgi_app rq s = (r, s')" by fastforce
  with request show ?case by (simp add: app_inv_request)
next
  case (idle s d)
  then show ?case by (rule app_inv_idle)
qed

lemma reachable_app_inv: "reachable s \<Longrightarrow> app_inv s"
  by (induction rule: reachable.induct) (auto intro: app_inv_init server_step_inv)


lemma obs_low_bucket:
  assumes "obs_at_least 1 h" and "hist_wf h" and "h_upper_bounds h = default_buckets"
    and "i < length default_buckets" and "default_buckets ! i < 1"
  shows "h_buckets h ! i = 0"
proof -
  from assms(1) obtain M where "hist_abs M h" "\<forall>v\<in>#M. 1 \<le> v" by (auto simp: obs_at_least_def)
  with assms(2-5) show ?thesis by (intro hist_abs_low_bucket) (auto simp: hist_wf_def)
qed

subsection \<open>Properties of the process\<close>

text \<open>
  C13. In every reachable state the sub-second buckets (upper bound below 1 s) of every
  child of \<^verbatim>\<open>request_latency_seconds\<close> and of \<^verbatim>\<open>calculate_duration_seconds\<close>
  are empty: the injected sleep puts every observation at 1 s or more.
\<close>

theorem reachable_low_buckets_empty:
  assumes "reachable s" and "i < length default_buckets" and "default_buckets ! i < 1"
  shows "list_all (\<lambda>p. h_buckets (snd p) ! i = 0) (request_latency (reg s)) \<and>
         h_buckets (calc_time (reg s)) ! i = 0"
proof -
  have inv: "app_inv s" using assms(1) by (rule reachable_app_inv)
  then have "\<forall>p\<in>set (request_latency (reg s)). hist_wf (snd p) \<and> h_upper_bounds (snd p) = default_buckets \<and>
      obs_at_least 1 (snd p)"
    by (auto simp: app_inv_def labelled_wf_def)
  with assms(2,3) have "list_all (\<lambda>p. h_buckets (snd p) ! i = 0) (request_latency (reg s))"
    by (auto simp: list_all_iff intro: obs_low_bucket)
  moreover have "h_buckets (calc_time (reg s)) ! i = 0"
    using inv assms(2,3) by (intro obs_low_bucket) (simp_all add: app_inv_def)
  ultimately show ?thesis by blast
qed

text \<open>
  C14. In every reachable state the latency observations over all labels number exactly
  the requests counted by \<^verbatim>\<open>app_visits_total\<close>, and the error count, the calculation
  count and the global \<^verbatim>\<open>counter\<close> never exceed it.
\<close>

theorem reachable_counts:
  assumes "reachable s"
  shows "labelled_total (request_latency (reg s)) = c_value (visit_counter (reg s)) \<and>
         c_value (error_counter (reg s)) \<le> c_value (visit_counter (reg s)) \<and>
         hist_count (calc_time (reg s)) \<le> c_value (visit_counter (reg s)) \<and>
         0 \<le> counter s \<and> counter s \<le> int (c_value (visit_counter (reg s)))"
  using reachable_app_inv [OF assms] by (simp add: app_inv_def)

text \<open>
  C15. The spec's invariant: no step of the process decreases the global counter, the
  visit and error counters, the calculation count or any label's latency count.
\<close>

theorem server_step_monotone:
  assumes "reachable s" and "server_step s s'"
  shows "counter s \<le> counter s' \<and>
         c_value (visit_counter (reg s)) \<le> c_value (visit_counter (reg s')) \<and>
         c_value (error_counter (reg s)) \<le> c_value (error_counter (reg s')) \<and>
         hist_count (calc_time (reg s)) \<le> hist_count (calc_time (reg s')) \<and>
         labelled_count (request_latency (reg s)) k \<le> labelled_count (request_latency (reg s')) k"
  using assms(2)
proof cases
  case (request rq)
  obtain r s2 where w: "wsgi_app rq s = (r, s2)" by fastforce
  with request have s2: "s' = s2" by simp
  have inv: "app_inv s" using assms(1) by (rule reachable_app_inv)
  note reg = wsgi_app_registry [OF w]
  from wsgi_app_latency [OF w] obtain lat where
    lat: "request_latency (reg s2) =
      labelled_observe (endpoint_label (request_context rq)) lat (clock s2) (request_latency (reg s))"
    by blast
  have "hist_count (calc_time (reg s)) \<le> hist_count (calc_time (reg s2))"
    using reg inv by (auto simp: app_inv_def hist_count_observe)
  moreover have "labelled_count (request_latency (reg s)) k \<le> labelled_count (request_latency (reg s2)) k"
    using inv lat by (simp add: app_inv_def labelled_count_observe)
  moreover have "counter s \<le> counter s2" using wsgi_app_counter [OF w] by simp
  ultimately show ?thesis using reg s2 by (auto simp: counter_inc_def)
next
  case (idle d)
  then show ?thesis by simp
qed

lemma visits_seen_Cons [simp]:
  "visits_seen (r # rs) = (case visits_of r of Some v \<Rightarrow> v # visits_seen rs | None \<Rightarrow> visits_seen rs)"
  by (simp add: visits_seen_def List.map_filter_def split: option.splits)

lemma visits_seen_Nil [simp]: "visits_seen [] = []"
  by (simp add: visits_seen_def List.map_filter_def)

lemma serve_counter:
  "serve s ev = (ro, s') \<Longrightarrow> counter s \<le> counter s' \<and>
   (\<forall>r v. ro = Some r \<longrightarrow> visits_of r = Some v \<longrightarrow> counter s < v \<and> v \<le> counter s')"
  by (cases ev) (auto simp: serve_def dest: wsgi_app_counter wsgi_app_visits split: prod.splits)

lemma run_Request [simp]:
  "run s (Request rq # evs) =
   (fst (wsgi_app rq s) # fst (run (snd (wsgi_app rq s)) evs), snd (run (snd (wsgi_app rq s)) evs))"
  by (simp add: serve_def split_def Let_def)

lemma run_Idle [simp]: "run s (Idle d # evs) = run (s\<lparr>clock := clock s + d\<rparr>) evs"
  by (simp add: serve_def split_def Let_def)

declare run.simps(2) [simp del]

lemma run_visits:
  "counter s \<le> counter (snd (run s evs)) \<and>
   (\<forall>v\<in>set (visits_seen (fst (run s evs))). counter s < v \<and> v \<le> counter (snd (run s evs))) \<and>
   sorted_wrt (<) (visits_seen (fst (run s evs)))"
proof (induction evs arbitrary: s)
  case Nil
  then show ?case by simp
next
  case (Cons ev evs)
  obtain ro s1 where sv: "serve s ev = (ro, s1)" by fastforce
  note IH = Cons.IH [of s1]
  note st = serve_counter [OF sv]
  have eq: "fst (run s (ev # evs)) = (case ro of Some r \<Rightarrow> r # fst (run s1 evs) | None \<Rightarrow> fst (run s1 evs))"
    "snd (run s (ev # evs)) = snd (run s1 evs)"
    using sv by (cases ro; simp add: run.simps(2) split_def Let_def)+
  show ?case
  proof (cases ro)
    case None
    with eq IH st show ?thesis by auto
  next
    case (Some r)
    show ?thesis
    proof (cases "visits_of r")
      case None
      with Some eq IH st show ?thesis by auto
    next
      case (Some v)
      with \<open>ro = Some r\<close> eq IH st show ?thesis by fastforce
    qed
  qed
qed

text \<open>
  C16. Over any sequence of requests and pauses served one at a time, the
  \<^verbatim>\<open>visits\<close> values that responses carry strictly increase.
\<close>

theorem visits_strictly_increase: "sorted_wrt (<) (visits_seen (fst (run s evs)))"
  using run_visits by blast

subsection \<open>Witnesses\<close>

lemma reachable_after_one_request:
  "reachable (snd (wsgi_app \<lparr>request_method = ''GET'', path = ''/nope'', args = []\<rparr>
     (init_state (\<lambda>_. 1/2) Map.empty 0)))"
proof -
  have "reachable (init_state (\<lambda>_. 1/2) Map.empty 0)"
    by (rule reachable.init) (simp add: rnd_ok_def init_state_def)
  then show ?thesis by (rule reachable.step) (rule server_step.request)
qed

theorem reachable_low_buckets_empty_witness:
  "list_all (\<lambda>p. h_buckets (snd p) ! 0 = 0)
     (request_latency (reg (snd (wsgi_app \<lparr>request_method = ''GET'', path = ''/nope'', args = []\<rparr>
        (init_state (\<lambda>_. 1/2) Map.empty 0))))) \<and>
   h_buckets (calc_time (reg (snd (wsgi_app \<lparr>request_method = ''GET'', path = ''/nope'', args = []\<rparr>
        (init_state (\<lambda>_. 1/2) Map.empty 0))))) ! 0 = 0"
  by (rule reachable_low_buckets_empty [OF reachable_after_one_request])
     (simp_all add: default_buckets_def)

theorem reachable_counts_witness:
  "labelled_total (request_latency (reg (snd (wsgi_app \<lparr>request_method = ''GET'', path = ''/nope'', args = []\<rparr>
      (init_state (\<lambda>_. 1/2) Map.empty 0))))) =
   c_value (visit_counter (reg (snd (wsgi_app \<lparr>request_method = ''GET'', path = ''/nope'', args = []\<rparr>
      (init_state (\<lambda>_. 1/2) Map.empty 0)))))"
  using reachable_counts [OF reachable_after_one_request] by blast

theorem server_step_monotone_witness:
  "counter (init_state (\<lambda>_. 1/2) Map.empty 0) \<le>
   counter (snd (wsgi_app \<lparr>request_method = ''GET'', path = ''/'', args = []\<rparr> (init_state (\<lambda>_. 1/2) Map.empty 0)))"
proof -
  have r: "reachable (init_state (\<lambda>_. 1/2) Map.empty 0)"
    by (rule reachable.init) (simp add: rnd_ok_def init_state_def)
  from server_step_monotone [OF r server_step.request] show ?thesis by blast
qed

end
