(* ===== verification/Threads.thy ===== *)
theory Threads
  imports Prelude
begin

text \<open>
  \<^verbatim>\<open>app.run()\<close> serves requests on Werkzeug's threaded development server, one
  thread per request, all sharing the module global \<^verbatim>\<open>counter\<close>. In
  \<^verbatim>\<open>hello_world\<close> under CPython 3.11 the statement \<^verbatim>\<open>counter += 1\<close> is the bytecode
  \<^verbatim>\<open>LOAD_GLOBAL; LOAD_CONST; BINARY_OP; STORE_GLOBAL\<close>, none of which lets the
  interpreter switch threads, so the increment is one atomic step. The response then calls
  \<^verbatim>\<open>os.environ.get\<close> (a Python-level call, where a switch may happen) before it
  reads \<^verbatim>\<open>counter\<close> again for \<^verbatim>\<open>'visits'\<close>. A thread is at one of three points;
  a step of the system moves one thread. The theory shows that no increment is lost and
  that two answers may nevertheless carry the same \<^verbatim>\<open>visits\<close>.
\<close>

datatype hw_pc = HW_Start | HW_Incremented | HW_Done int

type_synonym hw_sys = "int \<times> hw_pc list"

inductive hw_step :: "hw_sys \<Rightarrow> hw_sys \<Rightarrow> bool" where
  increment: "i < length ts \<Longrightarrow> ts ! i = HW_Start \<Longrightarrow> hw_step (c, ts) (c + 1, ts[i := HW_Incremented])"
| read_visits: "i < length ts \<Longrightarrow> ts ! i = HW_Incremented \<Longrightarrow> hw_step (c, ts) (c, ts[i := HW_Done c])"

abbreviation hw_steps :: "hw_sys \<Rightarrow> hw_sys \<Rightarrow> bool" where
  "hw_steps \<equiv> hw_step\<^sup>*\<^sup>*"

fun hw_started :: "hw_pc \<Rightarrow> bool" where
  "hw_started HW_Start = False"
| "hw_started _ = True"

fun hw_result :: "hw_pc \<Rightarrow> int option" where
  "hw_result (HW_Done v) = Some v"
| "hw_result _ = None"

text \<open>
  The invariant, relative to the value \<open>c0\<close> of the counter when the threads began:
  the counter has gone up once per thread that passed its increment, and every visits value
  already read lies above \<open>c0\<close> and not above the current counter.
\<close>

definition hw_inv :: "int \<Rightarrow> hw_sys \<Rightarrow> bool" where
  "hw_inv c0 st \<longleftrightarrow>
     fst st = c0 + int (length (filter hw_started (snd st))) \<and>
     list_all (\<lambda>p. case hw_result p of Some v \<Rightarrow> c0 < v \<and> v \<le> fst st | None \<Rightarrow> True) (snd st)"

inductive_cases hw_stepE: "hw_step (c, ts) st'"

lemma length_filter_update_started:
  "i < length ts \<Longrightarrow> \<not> hw_started (ts ! i) \<Longrightarrow> hw_started p \<Longrightarrow>
   length (filter hw_started (ts[i := p])) = Suc (length (filter hw_started ts))"
proof (induction ts arbitrary: i)
  case Nil
  then show ?case by simp
next
  case (Cons t ts)
  then show ?case by (cases i) auto
qed

lemma length_filter_update_same:
  "i < length ts \<Longrightarrow> hw_started (ts ! i) \<Longrightarrow> hw_started p \<Longrightarrow>
   length (filter hw_started (ts[i := p])) = length (filter hw_started ts)"
proof (induction ts arbitrary: i)
  case Nil
  then show ?case by simp
next
  case (Cons t ts)
  then show ?case by (cases i) auto
qed

lemma hw_step_inv: "hw_step st st' \<Longrightarrow> hw_inv c0 st \<Longrightarrow> hw_inv c0 st'"
proof (induction rule: hw_step.induct)
  case (increment i ts c)
  then show ?case
    by (auto simp: hw_inv_def length_filter_update_started list_all_length nth_list_update
        split: option.splits)
next
  case (read_visits i ts c)
  have "c0 < c"
  proof -
    have "hw_started (ts ! i)" using read_visits by simp
    then have "ts ! i \<in> set (filter hw_started ts)" using read_visits(1) by simp
    then have "0 < length (filter hw_started ts)" by (rule length_pos_if_in_set)
    then show ?thesis using read_visits(3) by (simp add: hw_inv_def)
  qed
  with read_visits show ?case
    by (auto simp: hw_inv_def length_filter_update_same list_all_length nth_list_update
        split: option.splits)
qed

lemma hw_steps_inv: "hw_steps st st' \<Longrightarrow> hw_inv c0 st \<Longrightarrow> hw_inv c0 st'"
  by (induction rule: rtranclp_induct) (auto intro: hw_step_inv)

lemma hw_result_started: "hw_result p \<noteq> None \<Longrightarrow> hw_started p"
  by (cases p) simp_all

lemma hw_step_length: "hw_step st st' \<Longrightarrow> length (snd st') = length (snd st)"
  by (induction rule: hw_step.induct) simp_all

lemma hw_steps_length: "hw_steps st st' \<Longrightarrow> length (snd st') = length (snd st)"
  by (induction rule: rtranclp_induct) (auto dest: hw_step_length)

text \<open>
  Two overlapping requests: both increment before either reads, so both answer
  \<^verbatim>\<open>visits = 2\<close>.
\<close>

lemma hw_overlap_run: "hw_steps (0, [HW_Start, HW_Start]) (2, [HW_Done 2, HW_Done 2])"
proof -
  have s1: "hw_step (0, [HW_Start, HW_Start]) (1, [HW_Incremented, HW_Start])"
    using hw_step.increment [of 0 "[HW_Start, HW_Start]" 0] by simp
  have s2: "hw_step (1, [HW_Incremented, HW_Start]) (2, [HW_Incremented, HW_Incremented])"
    using hw_step.increment [of 1 "[HW_Incremented, HW_Start]" 1] by simp
  have s3: "hw_step (2, [HW_Incremented, HW_Incremented]) (2, [HW_Done 2, HW_Incremented])"
    using hw_step.read_visits [of 0 "[HW_Incremented, HW_Incremented]" 2] by simp
  have s4: "hw_step (2, [HW_Done 2, HW_Incremented]) (2, [HW_Done 2, HW_Done 2])"
    using hw_step.read_visits [of 1 "[HW_Done 2, HW_Incremented]" 2] by simp
  from s1 s2 s3 s4 show ?thesis
    by (meson converse_rtranclp_into_rtranclp rtranclp.rtrancl_refl)
qed

text \<open>
  C17. Under the threaded server the spec's "visits strictly increase" does not extend to
  overlapping requests: there is an interleaving of two concurrent requests to
  \<^verbatim>\<open>/\<close> after which both have answered with the same \<^verbatim>\<open>visits\<close> value.
\<close>

theorem concurrent_visits_not_distinct:
  "\<exists>c ts. hw_steps (0, [HW_Start, HW_Start]) (c, ts) \<and> list_all (\<lambda>p. hw_result p \<noteq> None) ts \<and>
         \<not> distinct (map hw_result ts)"
  using hw_overlap_run by fastforce

text \<open>
  C18. No increment is lost: when \<open>n\<close> concurrent requests to \<^verbatim>\<open>/\<close> have all
  answered, the counter has gone up by exactly \<open>n\<close>, and every answer's
  \<^verbatim>\<open>visits\<close> lies between the old counter (exclusive) and the new one.
\<close>

theorem threads_no_lost_update:
  assumes "hw_steps (c0, replicate n HW_Start) (c, ts)"
    and "list_all (\<lambda>p. hw_result p \<noteq> None) ts"
  shows "c = c0 + int n \<and>
         list_all (\<lambda>p. case hw_result p of Some v \<Rightarrow> c0 < v \<and> v \<le> c | None \<Rightarrow> False) ts"
proof -
  have "hw_inv c0 (c0, replicate n HW_Start)" by (simp add: hw_inv_def list_all_iff)
  with assms(1) have inv: "hw_inv c0 (c, ts)" by (rule hw_steps_inv)
  have len: "length ts = n" using hw_steps_length [OF assms(1)] by simp
  have "\<forall>p\<in>set ts. hw_started p"
    using assms(2) by (simp add: list_all_iff hw_result_started)
  then have "filter hw_started ts = ts" by simp
  with inv len assms(2) show ?thesis
    by (auto simp: hw_inv_def list_all_iff split: option.splits)
qed

subsection \<open>Witnesses\<close>

theorem threads_no_lost_update_witness:
  "(2::int) = 0 + int 2 \<and> list_all (\<lambda>p. case hw_result p of Some v \<Rightarrow> 0 < v \<and> v \<le> (2::int) | None \<Rightarrow> False)
     [HW_Done 2, HW_Done 2]"
proof -
  have "hw_steps (0, replicate 2 HW_Start) (2, [HW_Done 2, HW_Done 2])"
    using hw_overlap_run by (simp add: numeral_2_eq_2)
  from threads_no_lost_update [OF this] show ?thesis by simp
qed

end
