(* ===== verification/Config.thy ===== *)
theory Config
  imports App
begin

text \<open>
  The \<^verbatim>\<open>__main__\<close> block of \<^verbatim>\<open>src/app.py\<close> (lines 96--99): the listening port
  from \<^verbatim>\<open>PORT\<close> through \<^verbatim>\<open>int()\<close>, the debug switch from \<^verbatim>\<open>DEBUG\<close> through
  \<^verbatim>\<open>str.lower()\<close>, and the arguments handed to \<^verbatim>\<open>app.run\<close>, as a record. Serving
  itself is \<open>Server.run\<close>; binding the socket is not modelled. \<^verbatim>\<open>app.run\<close> sets
  \<^verbatim>\<open>threaded=True\<close> by default (Flask's \<^verbatim>\<open>options.setdefault\<close>), which is what
  makes the interleavings of the theory \<open>Threads\<close> possible.
\<close>

subsection \<open>\<^verbatim>\<open>str.lower\<close> on Latin-1 strings\<close>

text \<open>
  CPython lowercases one code point by the Unicode tables; on Latin-1 that is
  \<^verbatim>\<open>A\<close>..\<^verbatim>\<open>Z\<close> and \<^verbatim>\<open>U+00C0\<close>..\<^verbatim>\<open>U+00DE\<close> without the multiplication
  sign \<^verbatim>\<open>U+00D7\<close>, each moved up by 32; every other Latin-1 character is its own
  lowercase.
\<close>

definition py_lower_char :: "char \<Rightarrow> char" where
  "py_lower_char c =
     (let n = of_char c :: nat in
      if 65 \<le> n \<and> n \<le> 90 \<or> 192 \<le> n \<and> n \<le> 222 \<and> n \<noteq> 215 then char_of (n + 32) else c)"

definition py_lower :: "py_str \<Rightarrow> py_str" where
  "py_lower s = map py_lower_char s"

subsection \<open>Startup\<close>

text \<open>The keyword arguments of \<^verbatim>\<open>app.run(host=..., port=..., debug=...)\<close>.\<close>

record run_config =
  run_host :: py_str
  run_port :: int
  run_debug :: bool
  run_threaded :: bool

text \<open>
  \<^verbatim>\<open>int(os.environ.get('PORT', 5000))\<close>: the default is the integer 5000, which
  \<^verbatim>\<open>int()\<close> returns unchanged; a set variable is parsed.
\<close>

definition main_port :: "app_state \<Rightarrow> py_exc + int" where
  "main_port s = (case environ s ''PORT'' of None \<Rightarrow> Inr 5000 | Some v \<Rightarrow> py_int_of_str v)"

definition debug_mode :: "app_state \<Rightarrow> bool" where
  "debug_mode s = (py_lower (os_environ_get ''DEBUG'' ''false'' s) = ''true'')"

text \<open>Lines 97--99: a \<^verbatim>\<open>ValueError\<close> of the port aborts the script before \<^verbatim>\<open>app.run\<close>.\<close>

definition main :: "app_state \<Rightarrow> py_exc + run_config" where
  "main s =
     (case main_port s of
        Inl e \<Rightarrow> Inl e
      | Inr port \<Rightarrow>
          Inr \<lparr>run_host = ''0.0.0.0'', run_port = port, run_debug = debug_mode s, run_threaded = True\<rparr>)"

subsection \<open>Facts on \<open>py_lower\<close>\<close>

lemma char_eq_of_char: "c = d \<longleftrightarrow> (of_char c :: nat) = of_char d"
  by (simp add: of_char_eq_iff)

lemma of_char_py_lower_char:
  "(of_char (py_lower_char c) :: nat) =
   (let n = of_char c :: nat in
    if 65 \<le> n \<and> n \<le> 90 \<or> 192 \<le> n \<and> n \<le> 222 \<and> n \<noteq> 215 then n + 32 else n)"
  by (simp add: py_lower_char_def Let_def of_char_of)

text \<open>Only a lowercase ASCII letter and its uppercase form lowercase to that letter.\<close>

lemma py_lower_char_ascii:
  assumes "97 \<le> (of_char t :: nat)" "(of_char t :: nat) \<le> 122"
  shows "py_lower_char c = t \<longleftrightarrow> c = t \<or> (of_char c :: nat) + 32 = of_char t"
proof -
  have "py_lower_char c = t \<longleftrightarrow> (of_char (py_lower_char c) :: nat) = of_char t"
    by (rule char_eq_of_char)
  also have "\<dots> \<longleftrightarrow> (of_char c :: nat) = of_char t \<or> (of_char c :: nat) + 32 = of_char t"
    using assms by (simp only: of_char_py_lower_char Let_def) auto
  also have "(of_char c :: nat) = of_char t \<longleftrightarrow> c = t"
    by (rule char_eq_of_char [symmetric])
  finally show ?thesis .
qed

subsection \<open>Properties of startup\<close>

text \<open>
  C19. Debug mode is on exactly when \<^verbatim>\<open>DEBUG\<close> is set to \<^verbatim>\<open>true\<close> in any
  mixture of cases (\<^verbatim>\<open>True\<close>, \<^verbatim>\<open>TRUE\<close>, \<^verbatim>\<open>tRuE\<close>, ...): each of its four
  characters is the letter of \<^verbatim>\<open>true\<close> or that letter 32 code points lower. An unset
  variable, and every other value, leaves debug mode off.
\<close>

theorem debug_mode_iff:
  "debug_mode s \<longleftrightarrow>
   (case environ s ''DEBUG'' of
      None \<Rightarrow> False
    | Some v \<Rightarrow> list_all2 (\<lambda>c t. c = t \<or> (of_char c :: nat) + 32 = of_char t) v ''true'')"
proof -
  have "py_lower v = ''true'' \<longleftrightarrow>
        list_all2 (\<lambda>c t. c = t \<or> (of_char c :: nat) + 32 = of_char t) v ''true''" for v
  proof -
    have "py_lower v = ''true'' \<longleftrightarrow> list_all2 (\<lambda>c t. py_lower_char c = t) v ''true''"
      by (simp add: py_lower_def list.rel_map(1) [symmetric] list.rel_eq)
    also have "\<dots> \<longleftrightarrow> list_all2 (\<lambda>c t. c = t \<or> (of_char c :: nat) + 32 = of_char t) v ''true''"
      by (simp add: list_all2_Cons2 py_lower_char_ascii)
    finally show ?thesis .
  qed
  then show ?thesis
    by (simp add: debug_mode_def os_environ_get_def split: option.splits)
qed

text \<open>
  C20. When \<^verbatim>\<open>PORT\<close> holds the decimal text of an integer \<open>n\<close> (within the
  4300-digit limit), the script calls \<^verbatim>\<open>app.run\<close> on host \<^verbatim>\<open>0.0.0.0\<close>, port
  \<open>n\<close>, threaded, with the debug switch of \<open>debug_mode\<close>.
\<close>

theorem main_port_decimal:
  assumes "environ s ''PORT'' = Some (py_str_int n)" and "ndigits n \<le> int_max_str_digits"
  shows "main s =
         Inr \<lparr>run_host = ''0.0.0.0'', run_port = n, run_debug = debug_mode s, run_threaded = True\<rparr>"
  using assms by (simp add: main_def main_port_def py_int_of_str_str_int)

theorem main_port_decimal_witness:
  "main (init_state (\<lambda>_. 1/2) [''PORT'' \<mapsto> ''8080''] 0) =
   Inr \<lparr>run_host = ''0.0.0.0'', run_port = 8080, run_debug = False, run_threaded = True\<rparr>"
proof -
  have p: "py_str_int 8080 = ''8080''"
    by (simp add: py_str_int_def nat_digits.simps digit_char_def char_eq_of_char of_char_of)
  have d: "ndigits 8080 \<le> int_max_str_digits"
    by (simp add: ndigits_def nat_digits.simps int_max_str_digits_def)
  have g: "\<not> debug_mode (init_state (\<lambda>_. 1/2) [''PORT'' \<mapsto> ''8080''] 0)"
    by (simp add: debug_mode_def os_environ_get_def init_state_def py_lower_def py_lower_char_def)
  show ?thesis
    using main_port_decimal [of "init_state (\<lambda>_. 1/2) [''PORT'' \<mapsto> ''8080''] 0" 8080] p d g
    by (simp add: init_state_def)
qed

end
