(* ===== verification/Spec2Isabelle.thy ===== *)
theory Spec2Isabelle
  imports Server Threads Config
begin

text \<open>
  \<^bold>\<open>A verification model of \<^verbatim>\<open>src/app.py\<close>\<close>, the Flask demo service of this
  repository: four JSON routes (\<^verbatim>\<open>/\<close>, \<^verbatim>\<open>/health\<close>, \<^verbatim>\<open>/info\<close>,
  \<^verbatim>\<open>/calculate\<close>), a catch-all error handler, a timing middleware with an injected
  random sleep, and four Prometheus metric objects, started by a \<^verbatim>\<open>__main__\<close> block.

  \<^medskip>\<^bold>\<open>How the parts interact.\<close> Importing the module creates the metric objects and
  the global \<^verbatim>\<open>counter\<close> (lines 12--24). Each request goes through Flask's
  \<^verbatim>\<open>wsgi_app\<close>: URL matching; the \<^verbatim>\<open>before_request\<close> hook \<^verbatim>\<open>start_timer\<close>
  (lines 57--60: start time, \<^verbatim>\<open>app_visits_total\<close>); the view, or the routing
  exception when no rule matched; \<^verbatim>\<open>handle_exception\<close> (lines 52--55) for any
  exception, which answers 500 and increments \<^verbatim>\<open>app_errors_total\<close>; and the
  \<^verbatim>\<open>after_request\<close> hook \<^verbatim>\<open>record_latency\<close> (lines 62--69: sleep
  \<^verbatim>\<open>uniform(1, 3)\<close>, observe the latency under the endpoint name or the raw path).
  \<^verbatim>\<open>/calculate\<close> (lines 84--94) parses \<^verbatim>\<open>x\<close> and \<^verbatim>\<open>y\<close> with \<^verbatim>\<open>int()\<close>,
  calls \<^verbatim>\<open>badFunction\<close> (lines 72--82), sleeps again and observes
  \<^verbatim>\<open>calculate_duration_seconds\<close>; \<^verbatim>\<open>jsonify\<close> renders integers with
  \<^verbatim>\<open>int.__repr__\<close>, which can raise.

  \<^medskip>\<^bold>\<open>Theories.\<close>
  \<^item> \<open>Prelude\<close>: the Python exceptions as a datatype \<open>py_exc\<close>, counters in a list
    (\<open>inc_at\<close>), insertion-ordered dictionaries (\<open>assoc_upd\<close>) and their lemmas.
  \<^item> \<open>PyInt\<close>: CPython 3.11 \<^verbatim>\<open>int(str)\<close> (\<open>py_int_of_str\<close>: white space,
    one sign, single underscores between digits, the 4300-digit limit with its 640-digit
    threshold, the \<^verbatim>\<open>ValueError\<close> text with \<^verbatim>\<open>repr\<close> of the input as
    \<open>py_repr\<close>), and \<^verbatim>\<open>int.__repr__\<close> (\<open>int_repr\<close>, \<open>py_str_int\<close>). Lemmas:
    the round trip \<open>int_repr_roundtrip\<close>, the digit limit in both directions
    (\<open>py_int_of_str_digit_limit\<close>, \<open>py_int_of_str_within_limit\<close>), the accepted
    characters (\<open>py_int_of_str_charset\<close>), the text of the error that reaches the client
    (\<open>invalid_literal_echoes_input\<close>), and the equivalence of the scanner with the
    documented grammar \<open>py_int_ref\<close> (\<open>py_int_of_str_grammar\<close>, through the
    soundness and completeness lemmas of \<open>scan_digits\<close>).
  \<^item> \<open>BadFunction\<close>: \<open>badFunction\<close> on unbounded integers, equal to the spec's
    flattened description (\<open>badFunction_eq_spec\<close>).
  \<^item> \<open>Metrics\<close>: \<^verbatim>\<open>prometheus_client\<close>'s \<^verbatim>\<open>Counter\<close> and \<^verbatim>\<open>Histogram\<close>
    as records (\<open>pcounter\<close>, \<open>histogram\<close>: per-bucket counts, +Inf, sum),
    \<open>hist_observe\<close> (first bucket with \<open>v \<le> bound\<close>), labelled histograms as
    insertion-ordered association lists (\<open>labelled_observe\<close> creates a child on
    first use). \<open>hist_abs\<close> relates a histogram to the multiset of values it observed;
    \<open>hist_abs_observe\<close> is the simulation step and \<open>hist_exposition_refines\<close>
    states that the cumulative exposition counts what the abstract multiset says;
    \<open>labelled_observe_refines_map\<close> shows that a labelled histogram implements a map
    from labels to children, updated at one key, in the manner of a map ADT.
  \<^item> \<open>App\<close>: the module state \<open>app_state\<close> (global \<^verbatim>\<open>counter\<close>, the registry,
    the wall clock, the stream of \<^verbatim>\<open>random.random()\<close> values with its position,
    \<^verbatim>\<open>os.environ\<close>), the four views and \<^verbatim>\<open>/metrics\<close> of
    \<^verbatim>\<open>PrometheusMetrics\<close>, and the request pipeline \<open>wsgi_app\<close> built from
    \<open>match_request\<close>, \<open>start_timer\<close>, \<open>dispatch_request\<close>,
    \<open>handle_exception\<close> and \<open>record_latency\<close>. A view returns its result as
    \<open>py_exc + response\<close> paired with the state at the point of return or raise, so
    effects done before an exception are kept. Lemmas: the behaviour of
    \<^verbatim>\<open>/calculate\<close> on good, malformed and oversized input, of \<^verbatim>\<open>/\<close>,
    \<^verbatim>\<open>/health\<close> and \<^verbatim>\<open>/metrics\<close>, of \<^verbatim>\<open>OPTIONS\<close> and of routing errors,
    the one latency observation per request, and that an error is counted exactly when
    the answer is 500 (\<open>wsgi_app_errors\<close>).
  \<^item> \<open>Server\<close>: the process over its lifetime: \<open>run\<close> on a list of events
    (requests and the passing of time), the relation \<open>server_step\<close>,
    \<open>reachable\<close> states, and the invariant \<open>app_inv\<close> proved by rule induction
    (\<open>reachable_app_inv\<close>); from it, counter relations, monotonicity of every
    metric, strictly increasing \<^verbatim>\<open>visits\<close> for sequential requests, and the
    emptiness of the buckets below 1 second.
  \<^item> \<open>Threads\<close>: requests handled on concurrent threads (Werkzeug's threaded
    server), as an interleaving relation \<open>hw_step\<close> on the shared counter and the
    threads' program points of \<^verbatim>\<open>hello_world\<close>: no increment is lost, but two
    responses can carry the same \<^verbatim>\<open>visits\<close>.
  \<^item> \<open>Config\<close>: the \<^verbatim>\<open>__main__\<close> block: \<^verbatim>\<open>PORT\<close> through \<^verbatim>\<open>int()\<close>,
    \<^verbatim>\<open>DEBUG\<close> through \<^verbatim>\<open>str.lower()\<close>, the arguments of \<^verbatim>\<open>app.run\<close>.

  This theory adds the properties that need several components:
  \<open>run_counts_responses\<close> relates the two counters of the registry to the responses of
  a whole run of the process.

  \<^medskip>\<^bold>\<open>Modelling choices.\<close> Python integers are \<open>int\<close>; floats of the clock and of
  \<^verbatim>\<open>random\<close> are \<open>real\<close> (rounding is not modelled). Strings are \<open>char list\<close>
  with 8-bit characters, read as Latin-1; \<^verbatim>\<open>int()\<close>, \<^verbatim>\<open>repr\<close> and
  \<^verbatim>\<open>str.lower\<close> are exact on that range. The random source is an arbitrary
  sequence \<open>rnd\<close>; \<open>rnd_ok\<close> requires its values in \<open>[0, 1)\<close>, as
  \<^verbatim>\<open>random.random()\<close> guarantees, and is the only hypothesis on it. In the model
  computation takes no time and \<^verbatim>\<open>time.sleep(d)\<close> advances the clock by exactly
  \<open>d\<close>; \<open>Idle\<close> events move it by any amount. The properties about time use only
  lower bounds (every observation is at least 1 second), which also hold when sleeps
  overrun and computation takes time, provided the clock is not set back during a
  request; no upper bound on latencies is claimed, since real sleeps may overrun. The
  4300-digit limit is CPython's default \<^verbatim>\<open>sys.get_int_max_str_digits()\<close>; no
  function of the model uses fuel, every recursion is structural.

  \<^medskip>\<^bold>\<open>Not modelled.\<close> The text of HTTP responses, of JSON and of the Prometheus
  exposition format (a response body is a tree, \<open>Exposition\<close> carries the registry);
  HEAD bodies being dropped by the server; the default metrics of
  \<^verbatim>\<open>prometheus_flask_exporter\<close> (its own request histogram, request counter and info
  gauge, updated by hooks the library installs): that code is neither in this repository
  nor read by \<^verbatim>\<open>src/app.py\<close>, its behaviour differs between library versions, and
  it touches none of the state the modelled code reads, so only its \<^verbatim>\<open>/metrics\<close>
  route is modelled;
  socket I/O, binding the port and the debug reloader; the \<^verbatim>\<open>_created\<close>
  timestamps of the metric objects are kept but no property is stated about them.
\<close>

section \<open>Properties across components\<close>

text \<open>
  C22. Over any sequence of requests and idle periods, \<^verbatim>\<open>app_visits_total\<close> grows by
  the number of responses (every request is answered exactly once and counted once) and
  \<^verbatim>\<open>app_errors_total\<close> grows by the number of responses with status 500: an error
  is counted if and only if the client sees a 500.
\<close>

theorem run_counts_responses:
  "c_value (visit_counter (reg (snd (run s evs)))) =
     c_value (visit_counter (reg s)) + length (fst (run s evs)) \<and>
   c_value (error_counter (reg (snd (run s evs)))) =
     c_value (error_counter (reg s)) + length (filter (\<lambda>r. status r = 500) (fst (run s evs)))"
proof (induction evs arbitrary: s)
  case (Cons ev evs)
  show ?case
  proof (cases ev)
    case (Request rq)
    obtain r s1 where w: "wsgi_app rq s = (r, s1)" by fastforce
    have "c_value (visit_counter (reg s1)) = Suc (c_value (visit_counter (reg s)))"
      using wsgi_app_registry [OF w] by (simp add: counter_inc_def)
    moreover have "c_value (error_counter (reg s1)) =
                   c_value (error_counter (reg s)) + (if status r = 500 then 1 else 0)"
      using wsgi_app_errors [of rq s] w by simp
    ultimately show ?thesis using Cons.IH [of s1] Request w by simp
  qed (use Cons.IH in simp)
qed simp

end
